theory Spec2Isabelle
  imports Complex_Main "HOL-Library.Log_Nat"
begin

section \<open>Python values and errors\<close>

text \<open>
  The exceptions the modelled functions can raise. \<open>ValueError\<close> is raised explicitly by
  \<^verbatim>\<open>get_fib_for_streak\<close> and \<^verbatim>\<open>get_number_properties\<close>; \<open>OverflowError\<close> is raised by
  the interpreter when an \<^verbatim>\<open>int\<close> too large for a \<^verbatim>\<open>float\<close> enters float arithmetic;
  \<open>ZeroDivisionError\<close> is raised by a division by zero; \<open>RecursionError\<close> is raised by
  the interpreter when a call would exceed its recursion limit.
\<close>

datatype error = ValueError | OverflowError | ZeroDivisionError | RecursionError

text \<open>
  A Python \<^verbatim>\<open>float\<close> is an IEEE-754 binary64 value: a finite value (carried as the exact
  rational it denotes), an infinity or a NaN. The two zeros are identified: no comparison
  of the program tells them apart.
\<close>

datatype pyfloat = Fin rat | PosInf | NegInf | NaN

text \<open>A number as a dynamically typed argument: an \<^verbatim>\<open>int\<close> or a \<^verbatim>\<open>float\<close>.\<close>

datatype pyval = PyInt int | PyFloat pyfloat

section \<open>Float arithmetic\<close>

text \<open>
  Every float operation returns the exact result rounded to the nearest binary64 value,
  ties to the even significand. \<open>round_half_even\<close> rounds a rational to an integer;
  \<open>flog2 x\<close> is the binary exponent \<open>\<lfloor>log\<^sub>2 x\<rfloor>\<close> of a positive rational; \<open>quantum x\<close> is
  the spacing of the floats around \<open>x\<close> (53 significant bits, subnormals below
  \<open>2\<^sup>-\<^sup>1\<^sup>0\<^sup>2\<^sup>2\<close>); \<open>fl\<close> rounds onto that grid.
\<close>

definition round_half_even :: "rat \<Rightarrow> int" where
  "round_half_even z =
     (let f = \<lfloor>z\<rfloor>; d = z - of_int f
      in if d < 1 / 2 then f else if 1 / 2 < d then f + 1 else if even f then f else f + 1)"

definition flog2 :: "rat \<Rightarrow> int" where
  "flog2 x = (if 1 \<le> x then bitlen \<lfloor>x\<rfloor> - 1 else - bitlen (\<lceil>1 / x\<rceil> - 1))"

definition gexp :: "rat \<Rightarrow> int" where
  "gexp x = max (flog2 \<bar>x\<bar> - 52) (- 1074)"

definition quantum :: "rat \<Rightarrow> rat" where
  "quantum x = 2 powi gexp x"

definition fl :: "rat \<Rightarrow> rat" where
  "fl x = quantum x * of_int (round_half_even (x / quantum x))"

text \<open>The largest finite float; a rounded result beyond it is an infinity.\<close>

definition dbl_max :: rat where
  "dbl_max = 2 ^ 1024 - 2 ^ 971"

definition to_float :: "rat \<Rightarrow> pyfloat" where
  "to_float x =
     (let r = fl x
      in if dbl_max < r then PosInf else if r < - dbl_max then NegInf else Fin r)"

text \<open>The float a decimal literal of the source denotes.\<close>

definition pylit :: "rat \<Rightarrow> pyfloat" where
  "pylit x = Fin (fl x)"

fun fneg :: "pyfloat \<Rightarrow> pyfloat" where
  "fneg (Fin a) = Fin (- a)"
| "fneg PosInf = NegInf"
| "fneg NegInf = PosInf"
| "fneg NaN = NaN"

fun fadd :: "pyfloat \<Rightarrow> pyfloat \<Rightarrow> pyfloat" where
  "fadd (Fin a) (Fin b) = to_float (a + b)"
| "fadd NaN y = NaN"
| "fadd x NaN = NaN"
| "fadd PosInf NegInf = NaN"
| "fadd NegInf PosInf = NaN"
| "fadd PosInf y = PosInf"
| "fadd x PosInf = PosInf"
| "fadd NegInf y = NegInf"
| "fadd x NegInf = NegInf"

definition fsub :: "pyfloat \<Rightarrow> pyfloat \<Rightarrow> pyfloat" where
  "fsub x y = fadd x (fneg y)"

fun fsign :: "pyfloat \<Rightarrow> int" where
  "fsign (Fin a) = (if a < 0 then - 1 else if a = 0 then 0 else 1)"
| "fsign PosInf = 1"
| "fsign NegInf = - 1"
| "fsign NaN = 0"

definition inf_of_sign :: "int \<Rightarrow> pyfloat" where
  "inf_of_sign s = (if s = 0 then NaN else if 0 < s then PosInf else NegInf)"

fun fmul :: "pyfloat \<Rightarrow> pyfloat \<Rightarrow> pyfloat" where
  "fmul (Fin a) (Fin b) = to_float (a * b)"
| "fmul NaN y = NaN"
| "fmul x NaN = NaN"
| "fmul x y = inf_of_sign (fsign x * fsign y)"

text \<open>Python raises \<open>ZeroDivisionError\<close> on a zero divisor, whatever the dividend.\<close>

fun fdiv :: "pyfloat \<Rightarrow> pyfloat \<Rightarrow> error + pyfloat" where
  "fdiv x (Fin b) =
     (if b = 0 then Inl ZeroDivisionError
      else case x of
        Fin a \<Rightarrow> Inr (to_float (a / b))
      | NaN \<Rightarrow> Inr NaN
      | _ \<Rightarrow> Inr (inf_of_sign (fsign x * fsign (Fin b))))"
| "fdiv x NaN = Inr NaN"
| "fdiv (Fin a) y = Inr (Fin 0)"
| "fdiv x y = Inr NaN"

fun fle :: "pyfloat \<Rightarrow> pyfloat \<Rightarrow> bool" where
  "fle (Fin a) (Fin b) = (a \<le> b)"
| "fle NaN y = False"
| "fle x NaN = False"
| "fle NegInf y = True"
| "fle x PosInf = True"
| "fle x y = False"

fun flt :: "pyfloat \<Rightarrow> pyfloat \<Rightarrow> bool" where
  "flt (Fin a) (Fin b) = (a < b)"
| "flt NaN y = False"
| "flt x NaN = False"
| "flt PosInf y = False"
| "flt x NegInf = False"
| "flt x y = True"

fun feq :: "pyfloat \<Rightarrow> pyfloat \<Rightarrow> bool" where
  "feq NaN y = False"
| "feq x NaN = False"
| "feq x y = (x = y)"

text \<open>
  Python's two-argument \<^verbatim>\<open>min\<close> and \<^verbatim>\<open>max\<close> keep the first argument unless the second is
  strictly smaller (larger).
\<close>

definition py_min :: "pyfloat \<Rightarrow> pyfloat \<Rightarrow> pyfloat" where
  "py_min a b = (if flt b a then b else a)"

definition py_max :: "pyfloat \<Rightarrow> pyfloat \<Rightarrow> pyfloat" where
  "py_max a b = (if flt a b then b else a)"

text \<open>
  \<^verbatim>\<open>round(x, n)\<close> on a float: the decimal with \<open>n\<close> places nearest to the exact value of
  \<open>x\<close> (ties to even), converted back to the nearest float; infinities and NaN are returned
  unchanged.
\<close>

fun py_round :: "pyfloat \<Rightarrow> nat \<Rightarrow> pyfloat" where
  "py_round (Fin x) n = to_float (of_int (round_half_even (x * 10 ^ n)) / 10 ^ n)"
| "py_round x n = x"

text \<open>An \<^verbatim>\<open>int\<close> entering float arithmetic is converted, correctly rounded, or refused.\<close>

definition int_to_float :: "int \<Rightarrow> error + pyfloat" where
  "int_to_float n =
     (case to_float (of_int n) of Fin r \<Rightarrow> Inr (Fin r) | _ \<Rightarrow> Inl OverflowError)"

text \<open>True division of two \<^verbatim>\<open>int\<close>s: the exact quotient, correctly rounded.\<close>

definition int_truediv :: "int \<Rightarrow> int \<Rightarrow> error + pyfloat" where
  "int_truediv a b =
     (if b = 0 then Inl ZeroDivisionError
      else case to_float (of_int a / of_int b) of
        Fin r \<Rightarrow> Inr (Fin r)
      | _ \<Rightarrow> Inl OverflowError)"

fun val_to_float :: "pyval \<Rightarrow> error + pyfloat" where
  "val_to_float (PyInt n) = int_to_float n"
| "val_to_float (PyFloat x) = Inr x"

fun val_lt_zero :: "pyval \<Rightarrow> bool" where
  "val_lt_zero (PyInt n) = (n < 0)"
| "val_lt_zero (PyFloat x) = flt x (Fin 0)"

fun val_le_zero :: "pyval \<Rightarrow> bool" where
  "val_le_zero (PyInt n) = (n \<le> 0)"
| "val_le_zero (PyFloat x) = fle x (Fin 0)"

text \<open>Sequencing of computations that may raise.\<close>

definition bind_e :: "error + 'a \<Rightarrow> ('a \<Rightarrow> error + 'b) \<Rightarrow> error + 'b" where
  "bind_e m f = (case m of Inl e \<Rightarrow> Inl e | Inr x \<Rightarrow> f x)"

text \<open>
  Arithmetic on numbers: two \<^verbatim>\<open>int\<close>s are combined exactly (Python's integers are
  unbounded); as soon as one operand is a \<^verbatim>\<open>float\<close> the other is converted and the
  operation is the float one. True division always yields a \<^verbatim>\<open>float\<close>.
\<close>

fun val_add :: "pyval \<Rightarrow> pyval \<Rightarrow> error + pyval" where
  "val_add (PyInt a) (PyInt b) = Inr (PyInt (a + b))"
| "val_add a b =
     bind_e (val_to_float a) (\<lambda>x. bind_e (val_to_float b) (\<lambda>y. Inr (PyFloat (fadd x y))))"

fun val_sub :: "pyval \<Rightarrow> pyval \<Rightarrow> error + pyval" where
  "val_sub (PyInt a) (PyInt b) = Inr (PyInt (a - b))"
| "val_sub a b =
     bind_e (val_to_float a) (\<lambda>x. bind_e (val_to_float b) (\<lambda>y. Inr (PyFloat (fsub x y))))"

fun val_mul :: "pyval \<Rightarrow> pyval \<Rightarrow> error + pyval" where
  "val_mul (PyInt a) (PyInt b) = Inr (PyInt (a * b))"
| "val_mul a b =
     bind_e (val_to_float a) (\<lambda>x. bind_e (val_to_float b) (\<lambda>y. Inr (PyFloat (fmul x y))))"

fun val_truediv :: "pyval \<Rightarrow> pyval \<Rightarrow> error + pyval" where
  "val_truediv (PyInt a) (PyInt b) = bind_e (int_truediv a b) (\<lambda>q. Inr (PyFloat q))"
| "val_truediv a b =
     bind_e (val_to_float a) (\<lambda>x. bind_e (val_to_float b) (\<lambda>y.
     bind_e (fdiv x y) (\<lambda>q. Inr (PyFloat q))))"

text \<open>
  Comparisons between numbers are exact, also between an \<^verbatim>\<open>int\<close> and a \<^verbatim>\<open>float\<close>:
  nothing is rounded and nothing is raised.
\<close>

fun val_exact :: "pyval \<Rightarrow> pyfloat" where
  "val_exact (PyInt n) = Fin (of_int n)"
| "val_exact (PyFloat x) = x"

definition val_lt :: "pyval \<Rightarrow> pyval \<Rightarrow> bool" where
  "val_lt a b = flt (val_exact a) (val_exact b)"

definition val_le :: "pyval \<Rightarrow> pyval \<Rightarrow> bool" where
  "val_le a b = fle (val_exact a) (val_exact b)"

definition val_eq :: "pyval \<Rightarrow> pyval \<Rightarrow> bool" where
  "val_eq a b = feq (val_exact a) (val_exact b)"

text \<open>\<^verbatim>\<open>min(a, b)\<close> and \<^verbatim>\<open>max(a, b)\<close> on numbers: the first argument unless the second beats it.\<close>

definition val_min :: "pyval \<Rightarrow> pyval \<Rightarrow> pyval" where
  "val_min a b = (if val_lt b a then b else a)"

definition val_max :: "pyval \<Rightarrow> pyval \<Rightarrow> pyval" where
  "val_max a b = (if val_lt a b then b else a)"

text \<open>\<^verbatim>\<open>round(x, n)\<close> with \<open>n \<ge> 0\<close>: an \<^verbatim>\<open>int\<close> is returned unchanged, a \<^verbatim>\<open>float\<close> is rounded.\<close>

fun val_round :: "pyval \<Rightarrow> nat \<Rightarrow> pyval" where
  "val_round (PyInt n) d = PyInt n"
| "val_round (PyFloat x) d = PyFloat (py_round x d)"

section \<open>adaptive\_shield\_engine.py: the sequence\<close>

text \<open>
  The sequence in the words of the specification: \<open>fib(0) = fib(1) = fib(2) = 1\<close> and
  \<open>fib(k) = fib(k-1) + fib(k-2)\<close> for \<open>k \<ge> 3\<close>.
\<close>

fun fib_seq :: "nat \<Rightarrow> int" where
  "fib_seq 0 = 1"
| "fib_seq (Suc 0) = 1"
| "fib_seq (Suc (Suc 0)) = 1"
| "fib_seq (Suc (Suc (Suc n))) = fib_seq (Suc (Suc n)) + fib_seq (Suc n)"

text \<open>
  \<^verbatim>\<open>FIBONACCI_CACHE\<close> is a module-level dict; the model passes it in and returns it updated.
\<close>

type_synonym cache = "int \<rightharpoonup> int"

text \<open>
  The interpreter refuses a call that would make the stack deeper than its recursion
  limit, 1000 frames unless \<^verbatim>\<open>sys.setrecursionlimit\<close> is called, which the program never
  does. A function that calls itself therefore carries \<open>depth\<close>: the number of frames the
  interpreter still allows below the frame of the running call.
\<close>

definition RECURSION_LIMIT :: nat where
  "RECURSION_LIMIT = 1000"

text \<open>
  \<^verbatim>\<open>get_fib_for_streak\<close> on an \<^verbatim>\<open>int\<close> argument (the recursive calls always pass one):
  the range check, the cache lookup, the three base cases, the two recursive calls, each
  one frame deeper and refused with \<open>RecursionError\<close> when no frame is left, and the store
  into the cache before returning.
\<close>

fun get_fib_int :: "nat \<Rightarrow> cache \<Rightarrow> int \<Rightarrow> (error + int) \<times> cache" where
  "get_fib_int depth c streak =
     (if streak < 0 then (Inl ValueError, c)
      else case c streak of
        Some v \<Rightarrow> (Inr v, c)
      | None \<Rightarrow>
          if streak = 0 then (Inr 1, c(streak \<mapsto> 1))
          else if streak = 1 then (Inr 1, c(streak \<mapsto> 1))
          else if streak = 2 then (Inr 1, c(streak \<mapsto> 1))
          else (case depth of
                  0 \<Rightarrow> (Inl RecursionError, c)
                | Suc below \<Rightarrow>
                    (case get_fib_int below c (streak - 1) of
                       (Inl e, c1) \<Rightarrow> (Inl e, c1)
                     | (Inr val_minus_1, c1) \<Rightarrow>
                         (case get_fib_int below c1 (streak - 2) of
                            (Inl e, c2) \<Rightarrow> (Inl e, c2)
                          | (Inr val_minus_2, c2) \<Rightarrow>
                              (Inr (val_minus_1 + val_minus_2),
                               c2(streak \<mapsto> val_minus_1 + val_minus_2))))))"

declare get_fib_int.simps [simp del]

text \<open>The entry point: anything that is not an \<^verbatim>\<open>int\<close> is refused by the \<^verbatim>\<open>isinstance\<close> test.\<close>

fun get_fib_for_streak :: "nat \<Rightarrow> cache \<Rightarrow> pyval \<Rightarrow> (error + int) \<times> cache" where
  "get_fib_for_streak depth c (PyInt streak) = get_fib_int depth c streak"
| "get_fib_for_streak depth c (PyFloat x) = (Inl ValueError, c)"

text \<open>
  A cache is consistent when every entry holds the sequence value of its key. The empty
  cache of a fresh process is consistent, and only \<^verbatim>\<open>get_fib_for_streak\<close> writes to it.
\<close>

definition cache_ok :: "cache \<Rightarrow> bool" where
  "cache_ok c \<longleftrightarrow> (\<forall>k v. c k = Some v \<longrightarrow> 0 \<le> k \<and> v = fib_seq (nat k))"

section \<open>adaptive\_shield\_engine.py: the stake\<close>

text \<open>
  \<^verbatim>\<open>calculate_bet\<close>: the three guards, the sequence value, the buffer factor and the risk
  index with their defensive checks, and the rounded stake. \<^verbatim>\<open>base_bet\<close> and the streak
  are whatever numbers the caller passes, the zero count is an \<^verbatim>\<open>int\<close>. Here \<open>depth\<close> is
  the number of frames the interpreter still allows below the frame of the call of
  \<^verbatim>\<open>get_fib_for_streak\<close> that \<^verbatim>\<open>calculate_bet\<close> makes, and the cache is threaded through
  that call.
\<close>

definition calculate_bet ::
  "nat \<Rightarrow> cache \<Rightarrow> pyval \<Rightarrow> pyval \<Rightarrow> int \<Rightarrow> (error + pyval) \<times> cache" where
  "calculate_bet depth c base_bet current_streak z_count_last_50 =
     (if val_le_zero base_bet then (Inr (PyFloat (Fin 0)), c)
      else if val_lt_zero current_streak then (Inr (PyFloat (Fin 0)), c)
      else if \<not> (0 \<le> z_count_last_50 \<and> z_count_last_50 \<le> 50) then (Inr (PyFloat (Fin 0)), c)
      else case get_fib_for_streak depth c current_streak of (r, c') \<Rightarrow>
        (bind_e r (\<lambda>fib_k.
         bind_e (val_truediv (PyInt z_count_last_50) (PyFloat (Fin 50))) (\<lambda>zq.
         bind_e (val_sub (PyFloat (Fin 1)) zq) (\<lambda>buffer_factor.
         if val_le_zero buffer_factor then Inr (PyFloat (Fin 0))
         else
         bind_e (val_truediv current_streak (PyFloat (Fin 15))) (\<lambda>sq.
         bind_e (val_add (PyFloat (Fin 1)) sq) (\<lambda>risk_index.
         if val_le_zero risk_index then Inr (PyFloat (Fin 0))
         else
         bind_e (val_mul base_bet (PyInt fib_k)) (\<lambda>p1.
         bind_e (val_mul p1 buffer_factor) (\<lambda>p2.
         bind_e (val_truediv p2 risk_index) (\<lambda>bet_amount.
         Inr (val_round bet_amount 2))))))))), c'))"

text \<open>
  The stake in the words of the specification, evaluated in Python's arithmetic:
  \<open>buffer_factor = 1 - zero_count/50\<close>, \<open>risk_index = 1 + streak/15\<close> and
  \<open>stake = round(base \<times> fib(streak) \<times> buffer_factor / risk_index, 2)\<close>, with the float
  constants \<open>1.0\<close>, \<open>50.0\<close> and \<open>15.0\<close> of the program.
\<close>

definition buffer_factor_spec :: "int \<Rightarrow> error + pyval" where
  "buffer_factor_spec z =
     bind_e (val_truediv (PyInt z) (PyFloat (Fin 50))) (val_sub (PyFloat (Fin 1)))"

definition risk_index_spec :: "nat \<Rightarrow> error + pyval" where
  "risk_index_spec k =
     bind_e (val_truediv (PyInt (int k)) (PyFloat (Fin 15))) (val_add (PyFloat (Fin 1)))"

definition stake_spec :: "pyval \<Rightarrow> nat \<Rightarrow> int \<Rightarrow> error + pyval" where
  "stake_spec base k z =
     bind_e (buffer_factor_spec z) (\<lambda>bf.
     bind_e (risk_index_spec k) (\<lambda>ri.
     bind_e (val_mul base (PyInt (fib_seq k))) (\<lambda>p1.
     bind_e (val_mul p1 bf) (\<lambda>p2.
     bind_e (val_truediv p2 ri) (\<lambda>stake.
     Inr (val_round stake 2))))))"

text \<open>
  The same formula in exact arithmetic, rounded to two decimals: what the formula denotes
  when its operations are those of the rationals.
\<close>

definition stake_exact :: "rat \<Rightarrow> nat \<Rightarrow> int \<Rightarrow> rat" where
  "stake_exact base k z =
     of_int (round_half_even
       (base * of_int (fib_seq k) * (1 - of_int z / 50) / (1 + of_int (int k) / 15) * 100)) / 100"

text \<open>
  The integers that enter float arithmetic in the formula fit a float: the streak, and
  the product \<open>base \<times> fib(streak)\<close> for an \<^verbatim>\<open>int\<close> base, \<open>fib(streak)\<close> for a \<^verbatim>\<open>float\<close> base.
\<close>

fun ints_fit :: "pyval \<Rightarrow> nat \<Rightarrow> bool" where
  "ints_fit (PyInt b) k \<longleftrightarrow>
     of_int (int k) \<le> dbl_max \<and> \<bar>of_int (b * fib_seq k)\<bar> \<le> dbl_max"
| "ints_fit (PyFloat x) k \<longleftrightarrow>
     of_int (int k) \<le> dbl_max \<and> of_int (fib_seq k) \<le> dbl_max"

section \<open>live\_analytics.py: properties of a roulette number\<close>

definition RED_NUMBERS :: "int list" where
  "RED_NUMBERS = [1, 3, 5, 7, 9, 12, 14, 16, 18, 19, 21, 23, 25, 27, 30, 32, 34, 36]"

definition ZERO_NUMBER :: int where
  "ZERO_NUMBER = 0"

definition ALL_NUMBERS :: "int list" where
  "ALL_NUMBERS = [0..36]"

definition DOZENS :: "(int \<times> int list) list" where
  "DOZENS = [(1, [1..12]), (2, [13..24]), (3, [25..36])]"

definition COLUMNS :: "(int \<times> int list) list" where
  "COLUMNS =
     [(1, [1, 4, 7, 10, 13, 16, 19, 22, 25, 28, 31, 34]),
      (2, [2, 5, 8, 11, 14, 17, 20, 23, 26, 29, 32, 35]),
      (3, [3, 6, 9, 12, 15, 18, 21, 24, 27, 30, 33, 36])]"

definition EVEN_NUMBERS :: "int list" where
  "EVEN_NUMBERS = filter (\<lambda>i. i mod 2 = 0) [1..36]"

definition LOW_NUMBERS :: "int list" where
  "LOW_NUMBERS = [1..18]"

record number_props =
  number :: int
  is_zero :: bool
  color :: "string option"
  parity :: "string option"
  range_lh :: "string option"
  dozen :: "int option"
  column :: "int option"

text \<open>The loops over \<^verbatim>\<open>DOZENS\<close> and \<^verbatim>\<open>COLUMNS\<close>: the key of the first set holding the number.\<close>

fun first_zone :: "(int \<times> int list) list \<Rightarrow> int \<Rightarrow> int option" where
  "first_zone [] n = None"
| "first_zone ((k, s) # zs) n = (if n \<in> set s then Some k else first_zone zs n)"

definition get_number_properties :: "int \<Rightarrow> error + number_props" where
  "get_number_properties n =
     (if n \<notin> set ALL_NUMBERS then Inl ValueError
      else if n \<noteq> ZERO_NUMBER then
        Inr \<lparr> number = n, is_zero = (n = ZERO_NUMBER),
              color = Some (if n \<in> set RED_NUMBERS then ''red'' else ''black''),
              parity = Some (if n \<in> set EVEN_NUMBERS then ''even'' else ''odd''),
              range_lh = Some (if n \<in> set LOW_NUMBERS then ''low'' else ''high''),
              dozen = first_zone DOZENS n,
              column = first_zone COLUMNS n \<rparr>
      else
        Inr \<lparr> number = n, is_zero = (n = ZERO_NUMBER), color = None, parity = None,
              range_lh = None, dozen = None, column = None \<rparr>)"


section \<open>risk\_monitor.py\<close>

definition MAX_CONSECUTIVE_LOSSES_LIMIT :: int where
  "MAX_CONSECUTIVE_LOSSES_LIMIT = 15"

definition MAX_ZEROS_IN_50_SPINS_LIMIT :: int where
  "MAX_ZEROS_IN_50_SPINS_LIMIT = 4"

definition DRAWDOWN_LIMIT_PERCENTAGE :: pyfloat where
  "DRAWDOWN_LIMIT_PERCENTAGE = pylit (20 / 100)"

definition ZERO_BUFFER_CONTRIBUTION_RATE :: pyfloat where
  "ZERO_BUFFER_CONTRIBUTION_RATE = pylit (5 / 100)"

definition ZERO_LOSS_COMPENSATION_RATE :: pyfloat where
  "ZERO_LOSS_COMPENSATION_RATE = pylit (50 / 100)"

definition MAX_HISTORY_FOR_ZERO_COUNT :: nat where
  "MAX_HISTORY_FOR_ZERO_COUNT = 50"

text \<open>The dict \<^verbatim>\<open>stop_conditions_met\<close> has three fixed keys.\<close>

record stop_flags =
  loss_streak_limit :: bool
  zero_count_limit :: bool
  drawdown_limit :: bool

text \<open>
  The attributes of a \<^verbatim>\<open>RiskMonitor\<close>. The monetary amounts are the numbers the caller
  passes, \<^verbatim>\<open>int\<close>s or \<^verbatim>\<open>float\<close>s; the streak and the zero count are \<^verbatim>\<open>int\<close>s.
\<close>

record RiskMonitor =
  initial_bank :: pyval
  base_bet :: pyval
  current_bank :: pyval
  current_streak :: int
  z_count_last_50 :: int
  zero_buffer :: pyval
  spin_history_for_zero_count :: "int list"
  stop_conditions_met :: stop_flags

definition reset_state :: "RiskMonitor \<Rightarrow> pyval \<Rightarrow> pyval \<Rightarrow> RiskMonitor" where
  "reset_state m new_initial_bank new_base_bet =
     m \<lparr> initial_bank := new_initial_bank,
         current_bank := new_initial_bank,
         base_bet := new_base_bet,
         current_streak := 0,
         z_count_last_50 := 0,
         zero_buffer := PyFloat (Fin 0),
         spin_history_for_zero_count := [],
         stop_conditions_met :=
           \<lparr> loss_streak_limit = False, zero_count_limit = False, drawdown_limit = False \<rparr> \<rparr>"

text \<open>The constructor sets the two arguments and resets.\<close>

definition RiskMonitor_init :: "pyval \<Rightarrow> pyval \<Rightarrow> RiskMonitor" where
  "RiskMonitor_init bank0 bet0 =
     reset_state
       \<lparr> initial_bank = bank0, base_bet = bet0, current_bank = bank0, current_streak = 0,
         z_count_last_50 = 0, zero_buffer = PyFloat (Fin 0), spin_history_for_zero_count = [],
         stop_conditions_met =
           \<lparr> loss_streak_limit = False, zero_count_limit = False, drawdown_limit = False \<rparr> \<rparr>
       bank0 bet0"

definition update_z_count :: "RiskMonitor \<Rightarrow> RiskMonitor" where
  "update_z_count m = m \<lparr> z_count_last_50 := sum_list (spin_history_for_zero_count m) \<rparr>"

definition is_stop_suggested :: "RiskMonitor \<Rightarrow> bool" where
  "is_stop_suggested m \<longleftrightarrow>
     loss_streak_limit (stop_conditions_met m) \<or> zero_count_limit (stop_conditions_met m)
     \<or> drawdown_limit (stop_conditions_met m)"

definition check_stop_conditions :: "RiskMonitor \<Rightarrow> error + RiskMonitor" where
  "check_stop_conditions m =
     (let f = (stop_conditions_met m)
            \<lparr> loss_streak_limit := (MAX_CONSECUTIVE_LOSSES_LIMIT \<le> current_streak m),
              zero_count_limit := (MAX_ZEROS_IN_50_SPINS_LIMIT \<le> z_count_last_50 m) \<rparr>
      in if val_lt (PyInt 0) (initial_bank m) then
           bind_e (val_sub (initial_bank m) (current_bank m)) (\<lambda>lost.
           bind_e (val_truediv lost (initial_bank m)) (\<lambda>drawdown.
             Inr (m \<lparr> stop_conditions_met :=
                      f \<lparr> drawdown_limit :=
                            val_le (PyFloat DRAWDOWN_LIMIT_PERCENTAGE) drawdown \<rparr> \<rparr>)))
         else if val_lt (current_bank m) (PyInt 0) then
           Inr (m \<lparr> stop_conditions_met := f \<lparr> drawdown_limit := True \<rparr> \<rparr>)
         else
           Inr (m \<lparr> stop_conditions_met := f \<lparr> drawdown_limit := False \<rparr> \<rparr>))"

text \<open>
  \<^verbatim>\<open>update_state\<close>. The arguments \<^verbatim>\<open>spin_result\<close> and \<^verbatim>\<open>is_simulation\<close> are not read by the
  body; the optional \<^verbatim>\<open>current_bank_override\<close> is an \<open>option\<close>. Every arithmetic operation
  on the amounts can raise, so the branch on the outcome of the round is sequenced before
  the final rounding of the bank and the check of the stop conditions.
\<close>

definition update_state ::
  "RiskMonitor \<Rightarrow> int \<Rightarrow> pyval \<Rightarrow> pyval \<Rightarrow> bool \<Rightarrow> pyval option \<Rightarrow> error + RiskMonitor"
  where
  "update_state m spin_result bet_amount win_amount is_zero_result current_bank_override =
     (let m1 = (case current_bank_override of
                  None \<Rightarrow> m
                | Some b \<Rightarrow> m \<lparr> current_bank := b \<rparr>);
          h = spin_history_for_zero_count m1 @ [if is_zero_result then 1 else 0];
          h' = (if MAX_HISTORY_FOR_ZERO_COUNT < length h then tl h else h);
          m2 = update_z_count (m1 \<lparr> spin_history_for_zero_count := h' \<rparr>)
      in bind_e
          (if val_lt (PyInt 0) win_amount then
             bind_e (val_add (current_bank m2) win_amount) (\<lambda>bank.
             bind_e (val_mul win_amount (PyFloat ZERO_BUFFER_CONTRIBUTION_RATE)) (\<lambda>contribution.
             bind_e (val_add (zero_buffer m2) contribution) (\<lambda>reserve.
               Inr (m2 \<lparr> current_bank := bank, current_streak := 0,
                         zero_buffer := val_round reserve 2 \<rparr>))))
           else
             bind_e (val_sub (current_bank m2) bet_amount) (\<lambda>bank.
             let m' = m2 \<lparr> current_bank := bank, current_streak := current_streak m2 + 1 \<rparr>
             in if is_zero_result then
                  bind_e (val_mul bet_amount (PyFloat ZERO_LOSS_COMPENSATION_RATE))
                    (\<lambda>potential_compensation.
                  let actual_compensation =
                        val_round (val_min potential_compensation (zero_buffer m')) 2
                  in bind_e (val_add (current_bank m') actual_compensation) (\<lambda>bank'.
                     bind_e (val_sub (zero_buffer m') actual_compensation) (\<lambda>reserve.
                       Inr (m' \<lparr> current_bank := bank',
                                 zero_buffer := val_round reserve 2 \<rparr>))))
                else Inr m'))
          (\<lambda>m3. check_stop_conditions (m3 \<lparr> current_bank := val_round (current_bank m3) 2 \<rparr>)))"

text \<open>
  The stop predicates in the words of the specification: loss streak \<open>\<ge> 15\<close>, zero count
  \<open>\<ge> 4\<close>, and drawdown \<open>(initial_bank - current_bank)/initial_bank \<ge> 0.20\<close> when
  \<open>initial_bank > 0\<close>, else \<open>current_bank < 0\<close>.
\<close>

definition drawdown_exceeded :: "RiskMonitor \<Rightarrow> bool" where
  "drawdown_exceeded m \<longleftrightarrow>
     (if val_lt (PyInt 0) (initial_bank m) then
        (case bind_e (val_sub (initial_bank m) (current_bank m))
                (\<lambda>lost. val_truediv lost (initial_bank m)) of
           Inr d \<Rightarrow> val_le (PyFloat (pylit (20 / 100))) d
         | Inl e \<Rightarrow> False)
      else val_lt (current_bank m) (PyInt 0))"



text \<open>A call of \<^verbatim>\<open>update_state\<close>, and a sequence of calls on one monitor.\<close>

record transition =
  t_spin_result :: int
  t_bet_amount :: pyval
  t_win_amount :: pyval
  t_is_zero_result :: bool
  t_current_bank_override :: "pyval option"

fun update_states :: "RiskMonitor \<Rightarrow> transition list \<Rightarrow> error + RiskMonitor" where
  "update_states m [] = Inr m"
| "update_states m (t # ts) =
     bind_e (update_state m (t_spin_result t) (t_bet_amount t) (t_win_amount t)
               (t_is_zero_result t) (t_current_bank_override t))
       (\<lambda>m'. update_states m' ts)"

definition zero_flag :: "transition \<Rightarrow> int" where
  "zero_flag t = (if t_is_zero_result t then 1 else 0)"

text \<open>
  A reserve that is an infinity or a non-negative amount of two decimals (a fixed point of
  the rounding): what \<^verbatim>\<open>update_state\<close> keeps the reserve to.
\<close>

definition reserve_ok :: "pyfloat \<Rightarrow> bool" where
  "reserve_ok x \<longleftrightarrow> x = PosInf \<or> (\<exists>r. x = Fin r \<and> 0 \<le> r \<and> py_round (Fin r) 2 = Fin r)"

text \<open>A finite float; a number that is an \<^verbatim>\<open>int\<close> or a finite float; a number that is a float.\<close>

fun is_finite_float :: "pyfloat \<Rightarrow> bool" where
  "is_finite_float (Fin x) = (fl x = x \<and> \<bar>x\<bar> \<le> dbl_max)"
| "is_finite_float x = False"

fun is_finite :: "pyval \<Rightarrow> bool" where
  "is_finite (PyInt n) = True"
| "is_finite (PyFloat x) = is_finite_float x"

fun is_float :: "pyval \<Rightarrow> bool" where
  "is_float (PyInt n) = False"
| "is_float (PyFloat x) = True"

text \<open>The arguments of a transition are all floats.\<close>

definition float_transition :: "transition \<Rightarrow> bool" where
  "float_transition t \<longleftrightarrow>
     is_float (t_bet_amount t) \<and> is_float (t_win_amount t)
     \<and> (case t_current_bank_override t of None \<Rightarrow> True | Some b \<Rightarrow> is_float b)"


section \<open>simulator.py\<close>

text \<open>One entry of \<^verbatim>\<open>bet_history\<close>.\<close>

record bet_record =
  spin :: nat
  result :: int
  bet_amount :: pyval
  win_amount_from_bet :: pyval
  bank_before_bet :: pyval
  bank_after_spin :: pyval
  streak_before_bet :: int
  z_count_before_bet :: int
  risk_index :: pyval
  buffer_factor :: pyval

record trigger_counts =
  loss_streak_triggers :: nat
  zero_count_triggers :: nat
  drawdown_triggers :: nat

record session_stats =
  total_spins :: nat
  wins :: nat
  losses :: nat
  zeros_hit :: nat
  max_streak_loss :: int
  max_drawdown :: pyval
  current_drawdown :: pyval
  bank_history :: "pyval list"
  stop_triggers :: trigger_counts
  final_bank :: pyval
  profit_loss :: pyval
  roi :: pyval
  zero_buffer_accumulated :: pyval
  zero_buffer_spent :: pyval

text \<open>
  The attributes of a \<^verbatim>\<open>RouletteSimulator\<close> (the three bank attributes carry the prefix
  \<open>sim_\<close>, the monitor has attributes of the same names; \<^verbatim>\<open>session_stats\<close> is \<open>stats\<close>),
  together with the module-level cache of the strategy engine. The strategy engine is
  \<^verbatim>\<open>calculate_bet\<close>. The constructor checks none of its arguments.
\<close>

record RouletteSimulator =
  sim_initial_bank :: pyval
  sim_base_bet :: pyval
  sim_current_bank :: pyval
  risk_monitor :: RiskMonitor
  spin_history :: "int list"
  bet_history :: "bet_record list"
  stats :: session_stats
  fib_cache :: cache

definition RouletteSimulator_init ::
  "pyval \<Rightarrow> pyval \<Rightarrow> RiskMonitor \<Rightarrow> cache \<Rightarrow> RouletteSimulator" where
  "RouletteSimulator_init bank0 bet0 risk_monitor_instance c =
     \<lparr> sim_initial_bank = bank0, sim_base_bet = bet0, sim_current_bank = bank0,
       risk_monitor = risk_monitor_instance, spin_history = [], bet_history = [],
       stats =
         \<lparr> total_spins = 0, wins = 0, losses = 0, zeros_hit = 0, max_streak_loss = 0,
           max_drawdown = PyInt 0, current_drawdown = PyInt 0, bank_history = [bank0],
           stop_triggers =
             \<lparr> loss_streak_triggers = 0, zero_count_triggers = 0, drawdown_triggers = 0 \<rparr>,
           final_bank = bank0, profit_loss = PyInt 0, roi = PyInt 0,
           zero_buffer_accumulated = PyInt 0, zero_buffer_spent = PyInt 0 \<rparr>,
       fib_cache = c \<rparr>"

text \<open>
  The wheel is the outcome source: \<open>wheel k\<close> is the number the \<open>k\<close>-th call of
  \<^verbatim>\<open>_spin_wheel\<close> returns (calls are counted from 0; every spin is appended to
  \<^verbatim>\<open>spin_history\<close>, whose length is the number of calls so far).
\<close>

definition spin_wheel :: "(nat \<Rightarrow> int) \<Rightarrow> RouletteSimulator \<Rightarrow> int" where
  "spin_wheel wheel s = wheel (length (spin_history s))"

definition place_bet_and_determine_outcome :: "pyval \<Rightarrow> int \<Rightarrow> error + pyval \<times> bool" where
  "place_bet_and_determine_outcome bet spin_result =
     (if val_le bet (PyInt 0) then Inr (PyInt 0, False)
      else bind_e (get_number_properties spin_result) (\<lambda>props.
        let is_zero_result = is_zero props
        in if \<not> is_zero_result \<and> color props = Some ''red''
           then Inr (bet, is_zero_result)
           else Inr (PyInt 0, is_zero_result)))"

text \<open>The loop \<^verbatim>\<open>for k, v in stop_conditions_met.items(): if v: stop_triggers[k] += 1\<close>.\<close>

definition count_triggers :: "stop_flags \<Rightarrow> trigger_counts \<Rightarrow> trigger_counts" where
  "count_triggers f t =
     \<lparr> loss_streak_triggers =
         (if loss_streak_limit f then loss_streak_triggers t + 1 else loss_streak_triggers t),
       zero_count_triggers =
         (if zero_count_limit f then zero_count_triggers t + 1 else zero_count_triggers t),
       drawdown_triggers =
         (if drawdown_limit f then drawdown_triggers t + 1 else drawdown_triggers t) \<rparr>"

definition record_triggers :: "RouletteSimulator \<Rightarrow> RouletteSimulator" where
  "record_triggers s =
     s \<lparr> stats := (stats s)
           \<lparr> stop_triggers :=
               count_triggers (stop_conditions_met (risk_monitor s))
                 (stop_triggers (stats s)) \<rparr> \<rparr>"

datatype loop_exit = Continue | Break

text \<open>The branch \<^verbatim>\<open>if bet_amount <= 0\<close> of the loop body: a spin without a stake.\<close>

definition no_bet_round ::
  "(nat \<Rightarrow> int) \<Rightarrow> nat \<Rightarrow> RouletteSimulator \<Rightarrow> error + loop_exit \<times> RouletteSimulator" where
  "no_bet_round wheel spin_count s =
     (let actual_spin_result = spin_wheel wheel s;
          s1 = s \<lparr> spin_history := spin_history s @ [actual_spin_result] \<rparr>
      in bind_e (get_number_properties actual_spin_result) (\<lambda>props.
         bind_e (update_state (risk_monitor s1) actual_spin_result (PyInt 0) (PyInt 0)
                   (is_zero props) None) (\<lambda>m.
         bind_e (val_truediv (PyInt (current_streak m)) (PyInt 15)) (\<lambda>sq.
         bind_e (val_add (PyInt 1) sq) (\<lambda>ri.
         bind_e (val_truediv (PyInt (z_count_last_50 m)) (PyInt 50)) (\<lambda>zq.
         bind_e (val_sub (PyInt 1) zq) (\<lambda>bf.
           Inr (Continue,
                s1 \<lparr> risk_monitor := m,
                     bet_history := bet_history s1 @
                       [\<lparr> spin = spin_count, result = actual_spin_result,
                          bet_amount = PyInt 0, win_amount_from_bet = PyInt 0,
                          bank_before_bet = sim_current_bank s1,
                          bank_after_spin = sim_current_bank s1,
                          streak_before_bet = current_streak m,
                          z_count_before_bet = z_count_last_50 m,
                          risk_index = ri,
                          buffer_factor = bf \<rparr>] \<rparr>))))))))"

text \<open>
  The statistics of the reserve after a transition: what it gained, or what it spent.
\<close>

definition reserve_stats :: "pyval \<Rightarrow> pyval \<Rightarrow> session_stats \<Rightarrow> error + session_stats" where
  "reserve_stats initial_zero_buffer_before_update zero_buffer_now st =
     (if val_lt initial_zero_buffer_before_update zero_buffer_now then
        bind_e (val_sub zero_buffer_now initial_zero_buffer_before_update) (\<lambda>gain.
        bind_e (val_add (zero_buffer_accumulated st) (val_round gain 2)) (\<lambda>total.
          Inr (st \<lparr> zero_buffer_accumulated := total \<rparr>)))
      else if val_lt zero_buffer_now initial_zero_buffer_before_update then
        bind_e (val_sub initial_zero_buffer_before_update zero_buffer_now) (\<lambda>spent.
        bind_e (val_add (zero_buffer_spent st) (val_round spent 2)) (\<lambda>total.
          Inr (st \<lparr> zero_buffer_spent := total \<rparr>)))
      else Inr st)"

text \<open>The rest of the loop body: a spin with the stake \<open>bet\<close>.\<close>

definition bet_round ::
  "(nat \<Rightarrow> int) \<Rightarrow> nat \<Rightarrow> pyval \<Rightarrow> RouletteSimulator
     \<Rightarrow> error + loop_exit \<times> RouletteSimulator" where
  "bet_round wheel spin_count bet s =
     (let actual_spin_result = spin_wheel wheel s;
          s1 = s \<lparr> spin_history := spin_history s @ [actual_spin_result] \<rparr>;
          bank_before_bet_for_this_spin = sim_current_bank s1
      in bind_e (place_bet_and_determine_outcome bet actual_spin_result)
           (\<lambda>(win_amount, is_zero_result).
         let initial_zero_buffer_before_update = zero_buffer (risk_monitor s1)
         in bind_e (update_state (risk_monitor s1) actual_spin_result bet win_amount
                      is_zero_result (Some bank_before_bet_for_this_spin)) (\<lambda>m.
         let s2 = s1 \<lparr> risk_monitor := m, sim_current_bank := current_bank m \<rparr>
         in bind_e (reserve_stats initial_zero_buffer_before_update (zero_buffer m) (stats s2))
              (\<lambda>st1.
         let streak1 = (if val_eq win_amount (PyInt 0) \<and> \<not> is_zero_result
                        then current_streak m - 1 else current_streak m);
             z1 = (if is_zero_result then z_count_last_50 m - 1 else z_count_last_50 m);
             streak_before_this_spin = max 0 streak1;
             z_count_before_this_spin = max 0 z1
         in bind_e (val_truediv (PyInt streak_before_this_spin) (PyInt 15)) (\<lambda>sq.
            bind_e (val_add (PyInt 1) sq) (\<lambda>ri.
            bind_e (val_truediv (PyInt z_count_before_this_spin) (PyInt 50)) (\<lambda>zq.
            bind_e (val_sub (PyInt 1) zq) (\<lambda>bf.
            let rec = \<lparr> spin = spin_count, result = actual_spin_result,
                        bet_amount = bet, win_amount_from_bet = win_amount,
                        bank_before_bet = bank_before_bet_for_this_spin,
                        bank_after_spin = sim_current_bank s2,
                        streak_before_bet = streak_before_this_spin,
                        z_count_before_bet = z_count_before_this_spin,
                        risk_index = val_round ri 4,
                        buffer_factor = val_round bf 4 \<rparr>;
                st2 = st1 \<lparr> bank_history := bank_history st1 @ [sim_current_bank s2] \<rparr>;
                st3 = (if val_lt (PyInt 0) win_amount then st2 \<lparr> wins := wins st2 + 1 \<rparr>
                       else st2 \<lparr> losses := losses st2 + 1 \<rparr>);
                st4 = (if is_zero_result then st3 \<lparr> zeros_hit := zeros_hit st3 + 1 \<rparr> else st3);
                st5 = st4 \<lparr> max_streak_loss := max (max_streak_loss st4) (current_streak m) \<rparr>
            in bind_e (val_sub (sim_initial_bank s2) (sim_current_bank s2))
                 (\<lambda>current_drawdown_val.
            let st6 = (if val_lt (PyInt 0) current_drawdown_val
                       then st5 \<lparr> max_drawdown := val_max (max_drawdown st5) current_drawdown_val \<rparr>
                       else st5);
                st7 = st6 \<lparr> current_drawdown := current_drawdown_val \<rparr>;
                s3 = s2 \<lparr> bet_history := bet_history s2 @ [rec], stats := st7 \<rparr>
            in if is_stop_suggested (risk_monitor s3) then Inr (Break, record_triggers s3)
               else if val_le (sim_current_bank s3) (PyInt 0) then Inr (Break, s3)
               else Inr (Continue, s3))))))))))"

text \<open>
  One pass through the body of the \<^verbatim>\<open>for\<close> loop of \<^verbatim>\<open>run_simulation\<close>: the check before
  the stake, the stake, and one of the two branches. As in \<^verbatim>\<open>calculate_bet\<close>, \<open>depth\<close> is
  the number of frames the interpreter still allows below the frame of the call of
  \<^verbatim>\<open>get_fib_for_streak\<close>; no other call of the loop body goes deeper than that frame.
\<close>

definition sim_round ::
  "nat \<Rightarrow> (nat \<Rightarrow> int) \<Rightarrow> nat \<Rightarrow> RouletteSimulator
     \<Rightarrow> error + loop_exit \<times> RouletteSimulator" where
  "sim_round depth wheel spin_count s0 =
     (let s = s0 \<lparr> stats := (stats s0) \<lparr> total_spins := spin_count \<rparr> \<rparr>
      in if is_stop_suggested (risk_monitor s) then Inr (Break, record_triggers s)
         else
           case calculate_bet depth (fib_cache s) (sim_base_bet s)
                  (PyInt (current_streak (risk_monitor s)))
                  (z_count_last_50 (risk_monitor s)) of
             (r, c') \<Rightarrow>
               bind_e r (\<lambda>bet0.
                 let s' = s \<lparr> fib_cache := c' \<rparr>;
                     bet1 = val_round bet0 2;
                     bet = val_min bet1 (sim_current_bank s')
                 in if val_le bet (PyInt 0) then no_bet_round wheel spin_count s'
                    else bet_round wheel spin_count bet s'))"

text \<open>The loop over \<^verbatim>\<open>range(1, num_spins + 1)\<close>, from \<open>spin_count\<close> on, \<open>n\<close> rounds left.\<close>

fun run_rounds ::
  "nat \<Rightarrow> (nat \<Rightarrow> int) \<Rightarrow> nat \<Rightarrow> nat \<Rightarrow> RouletteSimulator \<Rightarrow> error + RouletteSimulator"
  where
  "run_rounds depth wheel spin_count 0 s = Inr s"
| "run_rounds depth wheel spin_count (Suc n) s =
     bind_e (sim_round depth wheel spin_count s) (\<lambda>(ex, s').
       case ex of Break \<Rightarrow> Inr s'
                | Continue \<Rightarrow> run_rounds depth wheel (Suc spin_count) n s')"

text \<open>The summary after the loop.\<close>

definition finish_stats :: "RouletteSimulator \<Rightarrow> error + RouletteSimulator" where
  "finish_stats s =
     bind_e (val_sub (sim_current_bank s) (sim_initial_bank s)) (\<lambda>pl.
     let st = (stats s) \<lparr> final_bank := sim_current_bank s, profit_loss := pl \<rparr>
     in if val_lt (PyInt 0) (sim_initial_bank s) then
          bind_e (val_truediv pl (sim_initial_bank s)) (\<lambda>q.
          bind_e (val_mul q (PyInt 100)) (\<lambda>r.
            Inr (s \<lparr> stats := st \<lparr> roi := r \<rparr> \<rparr>)))
        else Inr (s \<lparr> stats := st \<lparr> roi := PyInt 0 \<rparr> \<rparr>))"

text \<open>
  \<^verbatim>\<open>run_simulation\<close>: the loop and the summary. Nothing precedes the loop but a \<^verbatim>\<open>print\<close>
  and the reading of the clock; what is printed is not modelled.
\<close>

definition run_simulation ::
  "nat \<Rightarrow> (nat \<Rightarrow> int) \<Rightarrow> int \<Rightarrow> RouletteSimulator \<Rightarrow> error + RouletteSimulator" where
  "run_simulation depth wheel num_spins s =
     bind_e (run_rounds depth wheel 1 (nat num_spins) s) finish_stats"


section \<open>Float arithmetic: properties of the rounding\<close>

subsection \<open>rounding to an integer\<close>

lemma rhe_of_int [simp]: "round_half_even (of_int n) = n"
  by (simp add: round_half_even_def)

lemma rhe_bounds: "of_int (round_half_even z) - 1 / 2 \<le> z \<and> z \<le> of_int (round_half_even z) + 1 / 2"
  unfolding round_half_even_def Let_def
  by (auto simp: not_less) linarith+

lemma rhe_mono: "a \<le> b \<Longrightarrow> round_half_even a \<le> round_half_even b"
proof -
  assume ab: "a \<le> b"
  have fl: "\<lfloor>a\<rfloor> \<le> \<lfloor>b\<rfloor>" using ab by (rule floor_mono)
  show ?thesis
  proof (cases "\<lfloor>a\<rfloor> = \<lfloor>b\<rfloor>")
    case True
    then show ?thesis
      using ab unfolding round_half_even_def Let_def by auto
  next
    case False
    then have "\<lfloor>a\<rfloor> + 1 \<le> \<lfloor>b\<rfloor>" using fl by simp
    moreover have "round_half_even a \<le> \<lfloor>a\<rfloor> + 1"
      unfolding round_half_even_def Let_def by auto
    moreover have "\<lfloor>b\<rfloor> \<le> round_half_even b"
      unfolding round_half_even_def Let_def by auto
    ultimately show ?thesis by linarith
  qed
qed

lemma rhe_minus: "round_half_even (- z) = - round_half_even z"
proof (cases "z = of_int \<lfloor>z\<rfloor>")
  case True
  then obtain n where "z = of_int n" ..
  then show ?thesis by (simp flip: of_int_minus)
next
  case False
  then have c: "\<lceil>z\<rceil> = \<lfloor>z\<rfloor> + 1"
    by (metis ceiling_altdef of_int_floor_cancel)
  have f: "\<lfloor>- z\<rfloor> = - \<lfloor>z\<rfloor> - 1"
    using c by (simp add: floor_minus)
  show ?thesis
    unfolding round_half_even_def Let_def f
    by (auto simp: not_less) 
qed

subsection \<open>the binary exponent\<close>

lemma flog2_bounds:
  assumes "0 < x"
  shows "2 powi flog2 x \<le> x \<and> x < 2 powi (flog2 x + 1)"
proof (cases "1 \<le> x")
  case True
  define m where "m = \<lfloor>x\<rfloor>"
  have m: "1 \<le> m" using True by (simp add: m_def)
  then have m0: "0 < m" by simp
  have b: "2 ^ nat (bitlen m - 1) \<le> m" "m < 2 ^ nat (bitlen m)"
    using bitlen_bounds [OF m0] by simp_all
  have b1: "1 \<le> bitlen m"
    using m0 bitlen_eq_zero_iff [of m] bitlen_nonneg [of m] by linarith
  have f: "flog2 x = bitlen m - 1"
    using True by (simp add: flog2_def m_def)
  have "(2::rat) powi (bitlen m - 1) = of_int (2 ^ nat (bitlen m - 1))"
    using b1 by (simp add: power_int_def)
  also have "\<dots> \<le> of_int m" using b(1) by (simp only: of_int_le_iff)
  also have "\<dots> \<le> x" unfolding m_def by linarith
  finally have lo: "2 powi (bitlen m - 1) \<le> x" .
  have "m + 1 \<le> 2 ^ nat (bitlen m)" using b(2) by simp
  then have "(of_int (m + 1) :: rat) \<le> of_int (2 ^ nat (bitlen m))"
    by (simp only: of_int_le_iff)
  moreover have "x < of_int (m + 1)" unfolding m_def by linarith
  moreover have "(2::rat) powi (bitlen m) = of_int (2 ^ nat (bitlen m))"
    using b1 by (simp add: power_int_def)
  ultimately have hi: "x < 2 powi (bitlen m)" by simp
  show ?thesis using lo hi by (simp add: f)
next
  case False
  define y where "y = 1 / x"
  have y1: "1 < y" using False assms by (simp add: y_def)
  define n where "n = \<lceil>y\<rceil> - 1"
  have n0: "0 < n" using y1 by (simp add: n_def)
  have b: "2 ^ nat (bitlen n - 1) \<le> n" "n < 2 ^ nat (bitlen n)"
    using bitlen_bounds [OF n0] by simp_all
  have b1: "1 \<le> bitlen n"
    using n0 bitlen_eq_zero_iff [of n] bitlen_nonneg [of n] by linarith
  have f: "flog2 x = - bitlen n"
    using False by (simp add: flog2_def n_def y_def)
  have ny: "of_int n < y" "y \<le> of_int (n + 1)"
    unfolding n_def by linarith+
  have "(2::rat) powi (bitlen n - 1) = of_int (2 ^ nat (bitlen n - 1))"
    using b1 by (simp add: power_int_def)
  also have "\<dots> \<le> of_int n" using b(1) by (simp only: of_int_le_iff)
  also have "\<dots> < y" by (rule ny)
  finally have lo: "2 powi (bitlen n - 1) < y" .
  have "n + 1 \<le> 2 ^ nat (bitlen n)" using b(2) by simp
  then have "(of_int (n + 1) :: rat) \<le> of_int (2 ^ nat (bitlen n))"
    by (simp only: of_int_le_iff)
  moreover have "(2::rat) powi (bitlen n) = of_int (2 ^ nat (bitlen n))"
    using b1 by (simp add: power_int_def)
  ultimately have hi: "y \<le> 2 powi (bitlen n)" using ny(2) by simp
  have p: "0 < (2::rat) powi (bitlen n)" "0 < (2::rat) powi (bitlen n - 1)" by simp_all
  have "2 powi (- bitlen n) \<le> x"
    using hi p(1) assms by (simp add: y_def power_int_minus field_simps)
  moreover have "x < 2 powi (- bitlen n + 1)"
  proof -
    have "(2::rat) powi (- bitlen n + 1) = 1 / 2 powi (bitlen n - 1)"
      using power_int_minus_divide [of "2::rat" "bitlen n - 1"] by simp
    moreover have "x < 1 / 2 powi (bitlen n - 1)"
      using lo p(2) assms by (simp add: y_def field_simps)
    ultimately show ?thesis by simp
  qed
  ultimately show ?thesis by (simp add: f)
qed

lemma flog2_unique:
  assumes "2 powi e \<le> x" and "x < 2 powi (e + 1)"
  shows "flog2 x = e"
proof -
  have x0: "0 < x"
    using assms(1) zero_less_power_int [of "2::rat" e] by linarith
  note b = flog2_bounds [OF x0]
  have "(2::rat) powi e < 2 powi (flog2 x + 1)" using assms(1) b by linarith
  then have "e < flog2 x + 1"
    by (metis power_int_increasing not_less one_le_numeral)
  moreover have "(2::rat) powi flog2 x < 2 powi (e + 1)" using assms(2) b by linarith
  then have "flog2 x < e + 1"
    by (metis power_int_increasing not_less one_le_numeral)
  ultimately show ?thesis by simp
qed

lemma flog2_mono:
  assumes "0 < x" and "x \<le> y"
  shows "flog2 x \<le> flog2 y"
proof -
  have "(2::rat) powi flog2 x < 2 powi (flog2 y + 1)"
    using flog2_bounds [OF assms(1)] flog2_bounds [of y] assms by linarith
  then have "flog2 x < flog2 y + 1"
    by (metis power_int_increasing not_less one_le_numeral)
  then show ?thesis by simp
qed

subsection \<open>rounding to binary64\<close>

lemma quantum_pos [simp]: "0 < quantum x"
  by (simp add: quantum_def)

lemma gexp_minus [simp]: "gexp (- x) = gexp x"
  by (simp add: gexp_def)

lemma fl_minus: "fl (- x) = - fl x"
  by (simp add: fl_def quantum_def rhe_minus)

lemma fl_zero [simp]: "fl 0 = 0"
  using rhe_of_int [of 0] by (simp add: fl_def)

lemma powi_is_int: "0 \<le> j \<Longrightarrow> (2::rat) powi j = of_int (2 ^ nat j)"
  by (simp add: power_int_def)

lemma fl_le_grid:
  assumes "x \<le> of_int m * quantum x"
  shows "fl x \<le> of_int m * quantum x"
proof -
  have "x / quantum x \<le> of_int m"
    using assms by (simp add: field_simps)
  then have "round_half_even (x / quantum x) \<le> round_half_even (of_int m)"
    by (rule rhe_mono)
  then have "(of_int (round_half_even (x / quantum x)) :: rat) \<le> of_int m"
    by simp
  then show ?thesis
    unfolding fl_def by (simp add: mult.commute)
qed

lemma fl_ge_grid:
  assumes "of_int m * quantum x \<le> x"
  shows "of_int m * quantum x \<le> fl x"
proof -
  have "of_int m \<le> x / quantum x"
    using assms by (simp add: field_simps)
  then have "round_half_even (of_int m) \<le> round_half_even (x / quantum x)"
    by (rule rhe_mono)
  then have "(of_int m :: rat) \<le> of_int (round_half_even (x / quantum x))"
    by simp
  then show ?thesis
    unfolding fl_def by (simp add: mult.commute)
qed

lemma fl_nonneg: "0 \<le> x \<Longrightarrow> 0 \<le> fl x"
  using fl_ge_grid [of 0 x] by simp

lemma powi_split:
  assumes "g \<le> e"
  shows "(2::rat) powi e = of_int (2 ^ nat (e - g)) * 2 powi g"
proof -
  have "(2::rat) powi e = 2 powi ((e - g) + g)" by simp
  also have "\<dots> = 2 powi (e - g) * 2 powi g"
    by (rule power_int_add) simp
  also have "(2::rat) powi (e - g) = of_int (2 ^ nat (e - g))"
    using assms by (simp add: powi_is_int)
  finally show ?thesis .
qed

lemma gexp_mono:
  assumes "0 < x" and "x \<le> y"
  shows "gexp x \<le> gexp y"
  using flog2_mono [of x y] assms by (simp add: gexp_def)

lemma fl_mono_pos:
  assumes "0 < x" and "x \<le> y"
  shows "fl x \<le> fl y"
proof (cases "gexp x = gexp y")
  case True
  then have q: "quantum x = quantum y" by (simp add: quantum_def)
  have "x / quantum y \<le> y / quantum y"
    by (rule divide_right_mono [OF assms(2) less_imp_le [OF quantum_pos]])
  then have "round_half_even (x / quantum y) \<le> round_half_even (y / quantum y)"
    by (rule rhe_mono)
  then show ?thesis
    by (simp add: fl_def q)
next
  case False
  then have lt: "gexp x < gexp y"
    using gexp_mono [OF assms] by simp
  have y0: "0 < y" using assms by simp
  define e where "e = flog2 y"
  have gy: "gexp y = e - 52"
    using lt y0 by (auto simp: gexp_def e_def max_def split: if_splits)
  have fx: "flog2 x < e"
    using lt gy assms(1) by (auto simp: gexp_def max_def split: if_splits)
  have gx: "gexp x \<le> e"
    using lt gy by simp
  define B where "B = (2::rat) powi e"
  have "x < 2 powi (flog2 x + 1)"
    using flog2_bounds [OF assms(1)] by simp
  also have "\<dots> \<le> B"
    unfolding B_def using fx by (intro power_int_increasing) simp_all
  finally have xB: "x \<le> B" by simp
  have By: "B \<le> y"
    using flog2_bounds [OF y0] by (simp add: B_def e_def)
  have "B = of_int (2 ^ nat (e - gexp x)) * quantum x"
    unfolding B_def quantum_def by (rule powi_split [OF gx])
  then have 1: "fl x \<le> B"
    using fl_le_grid [of x "2 ^ nat (e - gexp x)"] xB by simp
  have "B = of_int (2 ^ nat (e - gexp y)) * quantum y"
    unfolding B_def quantum_def by (rule powi_split) (simp add: gy)
  then have 2: "B \<le> fl y"
    using fl_ge_grid [of "2 ^ nat (e - gexp y)" y] By by simp
  show ?thesis using 1 2 by simp
qed

lemma fl_mono:
  assumes "x \<le> y"
  shows "fl x \<le> fl y"
proof -
  consider "0 < x" | "x \<le> 0" "0 \<le> y" | "y < 0" by linarith
  then show ?thesis
  proof cases
    case 1
    then show ?thesis using assms by (rule fl_mono_pos)
  next
    case 2
    have "fl x \<le> 0"
      using fl_nonneg [of "- x"] 2(1) by (simp add: fl_minus)
    moreover have "0 \<le> fl y" using 2(2) by (rule fl_nonneg)
    ultimately show ?thesis by simp
  next
    case 3
    have "fl (- y) \<le> fl (- x)"
      using 3 assms by (intro fl_mono_pos) simp_all
    then show ?thesis by (simp add: fl_minus)
  qed
qed

text \<open>Every binary64 value is a fixed point of the rounding.\<close>

lemma fl_exact_pos:
  assumes "0 < m" and "m < 2 ^ 53" and "- 1074 \<le> k"
  shows "fl (of_int m * 2 powi k) = of_int m * 2 powi k"
proof -
  define x :: rat where "x = of_int m * 2 powi k"
  have x0: "0 < x" using assms(1) by (simp add: x_def)
  have "(of_int m :: rat) < of_int (2 ^ 53)"
    using assms(2) by (simp only: of_int_less_iff)
  then have "x < of_int (2 ^ 53) * 2 powi k"
    unfolding x_def by (rule mult_strict_right_mono) simp
  also have "\<dots> = 2 powi (k + 53)"
    by (simp add: power_int_add)
  finally have "x < 2 powi (k + 53)" .
  moreover have "2 powi flog2 x \<le> x" using flog2_bounds [OF x0] by simp
  ultimately have "(2::rat) powi flog2 x < 2 powi (k + 53)" by simp
  then have "flog2 x < k + 53"
    by (metis power_int_increasing not_less one_le_numeral)
  then have g: "gexp x \<le> k"
    using assms(3) x0 by (simp add: gexp_def)
  have "(2::rat) powi k = of_int (2 ^ nat (k - gexp x)) * quantum x"
    unfolding quantum_def by (rule powi_split [OF g])
  then have "of_int m * (2::rat) powi k = of_int m * (of_int (2 ^ nat (k - gexp x)) * quantum x)"
    by (rule arg_cong)
  then have xq: "x = of_int (m * 2 ^ nat (k - gexp x)) * quantum x"
    by (simp add: x_def [symmetric] mult.assoc)
  have "fl x \<le> x" using fl_le_grid [of x "m * 2 ^ nat (k - gexp x)"] xq by simp
  moreover have "x \<le> fl x" using fl_ge_grid [of "m * 2 ^ nat (k - gexp x)" x] xq by simp
  ultimately show ?thesis by (simp add: x_def)
qed

lemma fl_exact:
  assumes "\<bar>m\<bar> < 2 ^ 53" and "- 1074 \<le> k"
  shows "fl (of_int m * 2 powi k) = of_int m * 2 powi k"
proof -
  consider "0 < m" | "m = 0" | "m < 0" by linarith
  then show ?thesis
  proof cases
    case 1
    then show ?thesis using assms by (intro fl_exact_pos) simp_all
  next
    case 2
    then show ?thesis by simp
  next
    case 3
    then have "fl (of_int (- m) * 2 powi k) = of_int (- m) * 2 powi k"
      using assms by (intro fl_exact_pos) simp_all
    then show ?thesis
      using fl_minus [of "of_int m * 2 powi k"] by simp
  qed
qed

lemma fl_of_int: "\<bar>n\<bar> < 2 ^ 53 \<Longrightarrow> fl (of_int n) = of_int n"
  using fl_exact [of n 0] by simp

subsection \<open>facts about the float operations\<close>

lemma to_float_Fin: "\<bar>fl x\<bar> \<le> dbl_max \<Longrightarrow> to_float x = Fin (fl x)"
  by (auto simp: to_float_def Let_def)

lemma dbl_max_exact: "fl dbl_max = dbl_max"
proof -
  have "dbl_max = of_int (2 ^ 53 - 1) * 2 powi 971"
    by (simp add: dbl_max_def)
  moreover have "fl (of_int (2 ^ 53 - 1) * 2 powi 971) = of_int (2 ^ 53 - 1) * 2 powi 971"
    by (rule fl_exact) simp_all
  ultimately show ?thesis by simp
qed

lemma dbl_max_pos: "0 < dbl_max"
  by (simp add: dbl_max_def)

lemma fl_bounded:
  assumes "\<bar>x\<bar> \<le> dbl_max"
  shows "\<bar>fl x\<bar> \<le> dbl_max"
proof -
  have "fl x \<le> fl dbl_max"
    using assms by (intro fl_mono) simp
  moreover have "fl (- dbl_max) \<le> fl x"
    using assms by (intro fl_mono) simp
  ultimately show ?thesis
    by (simp add: fl_minus dbl_max_exact)
qed

lemma to_float_small: "\<bar>x\<bar> \<le> dbl_max \<Longrightarrow> to_float x = Fin (fl x)"
  by (rule to_float_Fin) (rule fl_bounded)

lemma two53_le_dbl_max: "(2::rat) ^ 53 \<le> dbl_max"
  by (simp add: dbl_max_def)

lemma int_to_float_exact:
  assumes "\<bar>n\<bar> < 2 ^ 53"
  shows "int_to_float n = Inr (Fin (of_int n))"
proof -
  have e: "fl (of_int n) = of_int n" using assms by (rule fl_of_int)
  have "\<bar>of_int n :: rat\<bar> < of_int (2 ^ 53)"
    using assms by (simp only: of_int_abs [symmetric] of_int_less_iff)
  then have "\<bar>of_int n :: rat\<bar> \<le> dbl_max"
    using two53_le_dbl_max by simp
  then have "to_float (of_int n) = Fin (fl (of_int n))"
    by (rule to_float_small)
  then show ?thesis
    by (simp add: int_to_float_def e)
qed

lemma to_float_overflow:
  assumes "2 ^ 1024 \<le> x"
  shows "to_float x = PosInf"
proof -
  have "(2::rat) ^ 1024 = of_int 1 * 2 powi 1024" by simp
  moreover have "fl (of_int 1 * 2 powi 1024) = of_int 1 * 2 powi 1024"
    by (rule fl_exact) simp_all
  ultimately have "fl (2 ^ 1024) = 2 ^ 1024" by simp
  moreover have "fl (2 ^ 1024) \<le> fl x" using assms by (rule fl_mono)
  moreover have "dbl_max < 2 ^ 1024" by (simp add: dbl_max_def)
  ultimately have "dbl_max < fl x" by linarith
  then show ?thesis by (simp add: to_float_def)
qed

lemma bind_e_Inr [simp]: "bind_e (Inr x) f = f x"
  by (simp add: bind_e_def)

lemma bind_e_Inl [simp]: "bind_e (Inl e) f = Inl e"
  by (simp add: bind_e_def)

lemma bind_e_weak_cong: "m = m' \<Longrightarrow> bind_e m f = bind_e m' f"
  by simp

lemma flt_not_fle: "flt a b \<Longrightarrow> \<not> fle b a"
  by (cases a; cases b) auto

lemma fle_to_float:
  assumes "fl a = a" and "- dbl_max \<le> a" and "a \<le> x"
  shows "fle (Fin a) (to_float x)"
proof -
  have "a \<le> fl x" using fl_mono [OF assms(3)] assms(1) by simp
  then show ?thesis
    using assms(2) by (auto simp: to_float_def Let_def)
qed

lemma fl_one [simp]: "fl 1 = 1"
  using fl_of_int [of 1] by simp

lemma risk_index_ge_one:
  assumes "0 \<le> x"
  shows "fle (Fin 1) (fadd (Fin 1) (to_float x))"
proof -
  have n: "0 \<le> fl x" using assms by (rule fl_nonneg)
  have d: "- dbl_max \<le> 1" using dbl_max_pos by simp
  show ?thesis
  proof (cases "to_float x")
    case (Fin y)
    then have "y = fl x" by (auto simp: to_float_def Let_def split: if_splits)
    then have "1 \<le> 1 + y" using n by simp
    then show ?thesis
      using Fin fle_to_float [of 1 "1 + y"] d by simp
  next
    case PosInf
    then show ?thesis by simp
  next
    case NegInf
    then show ?thesis
      using n dbl_max_pos by (auto simp: to_float_def Let_def split: if_splits)
  next
    case NaN
    then show ?thesis by (auto simp: to_float_def Let_def split: if_splits)
  qed
qed

lemma fle_one_pos: "fle (Fin 1) r \<Longrightarrow> \<not> fle r (Fin 0)"
  by (cases r) auto

lemma fdiv_by_ge_one: "fle (Fin 1) r \<Longrightarrow> \<exists>q. fdiv x r = Inr q"
  by (cases r; cases x) auto

lemma fdiv_Fin: "b \<noteq> 0 \<Longrightarrow> fdiv (Fin a) (Fin b) = Inr (to_float (a / b))"
  by simp


subsection \<open>evaluating float expressions on numerals\<close>

lemma floor_rat_numeral [simp]:
  "\<lfloor>numeral a / numeral b :: rat\<rfloor> = numeral a div numeral b"
  by (metis floor_divide_of_int_eq of_int_numeral)

lemma floor_rat_neg_numeral [simp]:
  "\<lfloor>- (numeral a / numeral b) :: rat\<rfloor> = - numeral a div numeral b"
  by (metis divide_minus_left floor_divide_of_int_eq of_int_neg_numeral of_int_numeral)

lemma ceiling_rat_numeral [simp]:
  "\<lceil>numeral a / numeral b :: rat\<rceil> = - (- numeral a div numeral b)"
  by (metis ceiling_def floor_rat_neg_numeral)

text \<open>A result of ordinary size is finite: the range check never unfolds the bound.\<close>

lemma to_float_eval:
  "to_float x =
     (let r = fl x
      in if \<bar>r\<bar> \<le> 9007199254740992 then Fin r
         else if dbl_max < r then PosInf else if r < - dbl_max then NegInf else Fin r)"
proof -
  have "\<bar>fl x\<bar> \<le> 9007199254740992 \<Longrightarrow> \<bar>fl x\<bar> \<le> dbl_max"
    using two53_le_dbl_max by simp
  then show ?thesis
    by (auto simp: to_float_def Let_def)
qed

lemmas float_eval = fl_def quantum_def gexp_def flog2_def compute_bitlen
  round_half_even_def Let_def to_float_eval pylit_def fsub_def
  int_to_float_def int_truediv_def py_min_def py_max_def

subsection \<open>rounding to two decimals is idempotent\<close>

lemma rhe_unique:
  assumes "\<bar>z - of_int n\<bar> < 1 / 2"
  shows "round_half_even z = n"
proof -
  have "\<bar>of_int (round_half_even z) - (of_int n :: rat)\<bar> < 1"
    using rhe_bounds [of z] assms by linarith
  then have "\<bar>of_int (round_half_even z - n) :: rat\<bar> < of_int 1"
    by simp
  then have "\<bar>round_half_even z - n\<bar> < 1"
    by (simp only: of_int_abs [symmetric] of_int_less_iff)
  then show ?thesis by simp
qed

lemma fl_error: "\<bar>fl x - x\<bar> \<le> quantum x / 2"
proof -
  define q where "q = quantum x"
  have q: "0 < q" by (simp add: q_def)
  define m :: rat where "m = of_int (round_half_even (x / q))"
  have "\<bar>m - x / q\<bar> \<le> 1 / 2"
    using rhe_bounds [of "x / q"] unfolding m_def by linarith
  then have "\<bar>m - x / q\<bar> * q \<le> 1 / 2 * q"
    using q by (intro mult_right_mono) simp_all
  moreover have "\<bar>m - x / q\<bar> * q = \<bar>q * m - x\<bar>"
  proof -
    have "\<bar>m - x / q\<bar> * q = \<bar>(m - x / q) * q\<bar>"
      using q by (simp add: abs_mult)
    also have "(m - x / q) * q = q * m - x"
      using q by (simp add: field_simps)
    finally show ?thesis .
  qed
  ultimately show ?thesis
    by (simp add: fl_def q_def [symmetric] m_def [symmetric])
qed

lemma flog2_less:
  assumes "0 < x" and "x < 2 powi e"
  shows "flog2 x < e"
proof -
  have "(2::rat) powi flog2 x < 2 powi e"
    using flog2_bounds [OF assms(1)] assms(2) by linarith
  then show ?thesis
    by (metis power_int_increasing not_less one_le_numeral)
qed

lemma flog2_ge:
  assumes "2 powi e \<le> x"
  shows "e \<le> flog2 x"
proof -
  have x0: "0 < x"
    using assms zero_less_power_int [of "2::rat" e] by linarith
  have "(2::rat) powi e < 2 powi (flog2 x + 1)"
    using flog2_bounds [OF x0] assms by linarith
  then have "e < flog2 x + 1"
    by (metis power_int_increasing not_less one_le_numeral)
  then show ?thesis by simp
qed

lemma rhe_abs_le:
  assumes "\<bar>z\<bar> \<le> of_int n"
  shows "\<bar>round_half_even z\<bar> \<le> n"
proof -
  have "z \<le> of_int n" using assms by linarith
  then have "round_half_even z \<le> round_half_even (of_int n)"
    by (rule rhe_mono)
  then have 1: "round_half_even z \<le> n"
    by (simp only: rhe_of_int)
  have "- (of_int n :: rat) \<le> z" using assms by linarith
  then have "of_int (- n) \<le> z" by simp
  then have "round_half_even (of_int (- n)) \<le> round_half_even z"
    by (rule rhe_mono)
  then have 2: "- n \<le> round_half_even z"
    by (simp only: rhe_of_int)
  show ?thesis using 1 2 by linarith
qed

lemma fl_mantissa_bound:
  assumes "x \<noteq> 0"
  shows "\<bar>x / quantum x\<bar> < 2 ^ 53"
proof -
  have x0: "0 < \<bar>x\<bar>" using assms by simp
  have "flog2 \<bar>x\<bar> + 1 \<le> gexp x + 53" by (simp add: gexp_def)
  then have "(2::rat) powi (flog2 \<bar>x\<bar> + 1) \<le> 2 powi (gexp x + 53)"
    by (intro power_int_increasing) simp_all
  also have "\<dots> = quantum x * 2 ^ 53"
    by (simp add: quantum_def power_int_add)
  finally have "\<bar>x\<bar> < quantum x * 2 ^ 53"
    using flog2_bounds [OF x0] by linarith
  then have "\<bar>x\<bar> / quantum x < 2 ^ 53"
    by (simp add: field_simps)
  moreover have "\<bar>quantum x\<bar> = quantum x"
    by (simp add: abs_of_pos)
  ultimately show ?thesis by (simp add: abs_divide)
qed

lemma fl_idem: "fl (fl x) = fl x"
proof (cases "x = 0")
  case True
  then show ?thesis by simp
next
  case False
  define m where "m = round_half_even (x / quantum x)"
  have f: "fl x = of_int m * 2 powi gexp x"
    by (simp add: fl_def m_def quantum_def)
  have g: "- 1074 \<le> gexp x" by (simp add: gexp_def)
  have "\<bar>x / quantum x\<bar> \<le> of_int (2 ^ 53)"
    using fl_mantissa_bound [OF False] by simp
  then have m: "\<bar>m\<bar> \<le> 2 ^ 53"
    unfolding m_def by (rule rhe_abs_le)
  show ?thesis
  proof (cases "\<bar>m\<bar> < 2 ^ 53")
    case True
    then show ?thesis
      unfolding f using g by (intro fl_exact)
  next
    case top: False
    then have "m = 2 ^ 53 \<or> m = - (2 ^ 53)" using m by linarith
    then obtain k :: int where k: "m = k * 2" "\<bar>k\<bar> < 2 ^ 53"
      by (elim disjE) (rule that [of "2 ^ 52"], simp, simp, rule that [of "- (2 ^ 52)"], simp, simp)
    have "(2::rat) powi (gexp x + 1) = 2 powi gexp x * 2"
      by (simp add: power_int_add)
    then have "fl x = of_int k * 2 powi (gexp x + 1)"
      unfolding f k(1) by simp
    moreover have "fl (of_int k * 2 powi (gexp x + 1)) = of_int k * 2 powi (gexp x + 1)"
      using k(2) g by (intro fl_exact) simp_all
    ultimately show ?thesis by simp
  qed
qed

text \<open>Below \<open>2\<^sup>4\<^sup>6\<close> the floats are closer together than the cents: a cent survives.\<close>

lemma cents_survive:
  assumes "\<bar>of_int d / 100 :: rat\<bar> < 2 ^ 46"
  shows "round_half_even (fl (of_int d / 100) * 100) = d"
proof -
  define c :: rat where "c = of_int d / 100"
  have "flog2 \<bar>c\<bar> \<le> 45"
  proof (cases "c = 0")
    case True
    then show ?thesis
      using bitlen_nonneg [of "- 1"] by (simp add: flog2_def)
  next
    case False
    then have "0 < \<bar>c\<bar>" by simp
    moreover have "\<bar>c\<bar> < 2 powi 46" using assms by (simp add: c_def)
    ultimately have "flog2 \<bar>c\<bar> < 46" by (rule flog2_less)
    then show ?thesis by simp
  qed
  then have "gexp c \<le> - 7" by (simp add: gexp_def)
  then have "(2::rat) powi gexp c \<le> 2 powi (- 7)"
    by (intro power_int_increasing) simp_all
  then have "quantum c \<le> 1 / 128" by (simp add: quantum_def)
  then have "\<bar>fl c - c\<bar> \<le> 1 / 256"
    using fl_error [of c] by linarith
  then have "\<bar>fl c * 100 - of_int d\<bar> < 1 / 2"
    unfolding c_def by (simp add: abs_le_iff abs_less_iff field_simps) 
  then show ?thesis
    unfolding c_def by (rule rhe_unique)
qed

text \<open>From \<open>2\<^sup>4\<^sup>6\<close> on the cents are closer together than the floats: a float survives.\<close>

lemma float_survives_pos:
  assumes y: "fl y = y" and big: "2 ^ 46 \<le> y"
  shows "fl (of_int (round_half_even (y * 100)) / 100) = y"
proof -
  define e where "e = flog2 y"
  have y0: "0 < y" using big by (simp add: less_le_trans [of 0 "2 ^ 46"])
  have e46: "46 \<le> e"
    unfolding e_def using big by (intro flog2_ge) simp
  have bounds: "2 powi e \<le> y" "y < 2 powi (e + 1)"
    using flog2_bounds [OF y0] by (simp_all add: e_def)
  define g where "g = e - 52"
  have gy: "gexp y = g"
    using e46 y0 by (simp add: gexp_def g_def e_def)
  define q :: rat where "q = 2 powi g"
  have q0: "0 < q" by (simp add: q_def)
  have qy: "quantum y = q" by (simp add: quantum_def gy q_def)
  have q64: "1 / 64 \<le> q"
  proof -
    have "(2::rat) powi (- 6) \<le> 2 powi g"
      using e46 by (intro power_int_increasing) (simp_all add: g_def)
    then show ?thesis by (simp add: q_def)
  qed
  define m where "m = round_half_even (y / q)"
  have ym: "y = q * of_int m"
    using y by (simp add: fl_def qy m_def)
  have pe: "(2::rat) powi e = q * 2 ^ 52"
    by (simp add: q_def g_def power_int_diff)
  have pe1: "(2::rat) powi (e + 1) = q * 2 ^ 53"
    by (simp add: q_def g_def power_int_diff power_int_add)
  define c :: rat where "c = of_int (round_half_even (y * 100)) / 100"
  have cy: "\<bar>c - y\<bar> \<le> 1 / 200"
  proof -
    define r :: rat where "r = of_int (round_half_even (y * 100))"
    have "r - 1 / 2 \<le> y * 100" "y * 100 \<le> r + 1 / 2"
      using rhe_bounds [of "y * 100"] by (simp_all add: r_def)
    then have "r / 100 - y \<le> 1 / 200" "- (1 / 200) \<le> r / 100 - y"
      by linarith+
    then show ?thesis
      unfolding c_def r_def [symmetric] abs_le_iff by linarith
  qed
  show ?thesis
  proof (cases "m = 2 ^ 52")
    case True
    then have "y = 2 powi e" using ym pe by simp
    also have "\<dots> = of_int (2 ^ nat e)"
      using e46 by (intro powi_is_int) simp
    finally have yi: "y = of_int (2 ^ nat e)" .
    have "y * 100 = of_int (2 ^ nat e * 100)"
      unfolding yi by simp
    then have "round_half_even (y * 100) = 2 ^ nat e * 100"
      by (simp only: rhe_of_int)
    then have "of_int (round_half_even (y * 100)) / 100 = y"
      unfolding yi by simp
    then show ?thesis using y by simp
  next
    case False
    have "(2::rat) ^ 52 \<le> of_int m"
      using bounds(1) q0 unfolding pe ym by simp
    then have "(of_int (2 ^ 52) :: rat) \<le> of_int m" by simp
    then have "2 ^ 52 \<le> m" by (simp only: of_int_le_iff)
    then have m_lo: "2 ^ 52 + 1 \<le> m" using False by simp
    have "(of_int m :: rat) < 2 ^ 53"
      using bounds(2) q0 unfolding pe1 ym by simp
    then have "(of_int m :: rat) < of_int (2 ^ 53)" by simp
    then have "m < 2 ^ 53" by (simp only: of_int_less_iff)
    then have m_hi: "m + 1 \<le> 2 ^ 53" by simp
    have lo': "(of_int (2 ^ 52 + 1) :: rat) \<le> of_int m"
      using m_lo by (simp only: of_int_le_iff)
    have hi': "(of_int (m + 1) :: rat) \<le> of_int (2 ^ 53)"
      using m_hi by (simp only: of_int_le_iff)
    have half: "1 / 200 < q / 2" using q64 by simp
    have cy': "y - 1 / 200 \<le> c" "c \<le> y + 1 / 200"
      using cy by linarith+
    have "q * (of_int m - 1 / 2) = y - q / 2" "q * (of_int m + 1 / 2) = y + q / 2"
      by (simp_all add: ym algebra_simps)
    then have c_lo: "q * (of_int m - 1 / 2) < c" and c_hi: "c < q * (of_int m + 1 / 2)"
      using cy' half by linarith+
    have "q * 2 ^ 52 \<le> q * (of_int m - 1 / 2)"
      using lo' q0 by simp
    then have 1: "2 powi e \<le> c" using c_lo pe by simp
    have "q * (of_int m + 1 / 2) \<le> q * 2 ^ 53"
      using hi' q0 by simp
    then have 2: "c < 2 powi (e + 1)" using c_hi pe1 by simp
    have c0: "0 < c"
      using 1 zero_less_power_int [of "2::rat" e] by linarith
    have "flog2 c = e" using 1 2 by (rule flog2_unique)
    then have "gexp c = g"
      using e46 c0 by (simp add: gexp_def g_def)
    then have qc: "quantum c = q" by (simp add: quantum_def q_def)
    have "c / q < of_int m + 1 / 2"
      using c_hi q0 by (simp add: pos_divide_less_eq mult.commute)
    moreover have "of_int m - 1 / 2 < c / q"
      using c_lo q0 by (simp add: pos_less_divide_eq mult.commute)
    ultimately have "\<bar>c / q - of_int m\<bar> < 1 / 2"
      by linarith
    then have "round_half_even (c / q) = m" by (rule rhe_unique)
    then have "fl c = y" by (simp add: fl_def qc ym)
    then show ?thesis by (simp add: c_def)
  qed
qed

lemma float_survives:
  assumes y: "fl y = y" and big: "2 ^ 46 \<le> \<bar>y\<bar>"
  shows "fl (of_int (round_half_even (y * 100)) / 100) = y"
proof (cases "0 \<le> y")
  case True
  then show ?thesis using assms by (intro float_survives_pos) simp_all
next
  case False
  have "fl (- y) = - y" using y by (simp add: fl_minus)
  moreover have "2 ^ 46 \<le> - y" using big False by simp
  ultimately have "fl (of_int (round_half_even (- y * 100)) / 100) = - y"
    by (rule float_survives_pos)
  then have "fl (- (of_int (round_half_even (y * 100)) / 100)) = - y"
    using rhe_minus [of "y * 100"] by simp
  then show ?thesis by (simp add: fl_minus)
qed

lemma round2_fixed:
  "fl (of_int (round_half_even (fl (of_int d / 100) * 100)) / 100) = fl (of_int d / 100)"
proof (cases "\<bar>of_int d / 100 :: rat\<bar> < 2 ^ 46")
  case True
  then show ?thesis by (simp add: cents_survive)
next
  case False
  define c :: rat where "c = of_int d / 100"
  have big: "2 ^ 46 \<le> \<bar>c\<bar>" using False by (simp add: c_def)
  have p: "fl (2 ^ 46) = 2 ^ 46"
    using fl_of_int [of "2 ^ 46"] by simp
  have "2 ^ 46 \<le> \<bar>fl c\<bar>"
  proof (cases "0 \<le> c")
    case True
    then have "fl (2 ^ 46) \<le> fl c" using big by (intro fl_mono) simp
    then show ?thesis using p by simp
  next
    case False
    then have "fl c \<le> fl (- (2 ^ 46))" using big by (intro fl_mono) simp
    then show ?thesis using p by (simp add: fl_minus)
  qed
  then show ?thesis
    unfolding c_def [symmetric] by (intro float_survives fl_idem)
qed


section \<open>The sequence: correctness of the memoised function\<close>

lemma fib_seq_pos: "0 < fib_seq n"
  by (induction n rule: fib_seq.induct) simp_all

lemma fib_seq_step: "fib_seq n \<le> fib_seq (Suc n)"
proof (cases n rule: fib_seq.cases)
  case (4 m)
  have "0 < fib_seq (Suc (Suc m))" by (rule fib_seq_pos)
  with 4 show ?thesis by simp
qed simp_all

lemma fib_seq_mono: "m \<le> n \<Longrightarrow> fib_seq m \<le> fib_seq n"
  by (rule lift_Suc_mono_le [of fib_seq]) (simp_all add: fib_seq_step)

lemma fib_seq_rec_int:
  assumes "3 \<le> k"
  shows "fib_seq (nat k) = fib_seq (nat (k - 1)) + fib_seq (nat (k - 2))"
proof -
  define n where "n = nat k - 3"
  have n: "nat k = Suc (Suc (Suc n))"
    using assms by (simp add: n_def)
  have "nat (k - 1) = Suc (Suc n)" "nat (k - 2) = Suc n"
    using n assms by linarith+
  with n show ?thesis by simp
qed

lemma get_fib_int_cached:
  assumes "c k = Some v" and "0 \<le> k"
  shows "get_fib_int d c k = (Inr v, c)"
  using assms by (simp add: get_fib_int.simps [of d c k])

lemma get_fib_int_base:
  assumes "c k = None" and "0 \<le> k" and "k \<le> 2"
  shows "get_fib_int d c k = (Inr 1, c(k \<mapsto> 1))"
  using assms by (simp add: get_fib_int.simps [of d c k])

lemma get_fib_int_limit:
  assumes "c k = None" and "3 \<le> k"
  shows "get_fib_int 0 c k = (Inl RecursionError, c)"
  using assms by (simp add: get_fib_int.simps [of 0 c k])

lemma get_fib_int_step:
  assumes "c k = None" and "3 \<le> k"
  shows "get_fib_int (Suc d) c k =
     (case get_fib_int d c (k - 1) of
        (Inl e, c1) \<Rightarrow> (Inl e, c1)
      | (Inr val_minus_1, c1) \<Rightarrow>
          (case get_fib_int d c1 (k - 2) of
             (Inl e, c2) \<Rightarrow> (Inl e, c2)
           | (Inr val_minus_2, c2) \<Rightarrow>
               (Inr (val_minus_1 + val_minus_2), c2(k \<mapsto> val_minus_1 + val_minus_2))))"
  using assms by (simp add: get_fib_int.simps [of "Suc d" c k])

lemma cache_ok_upd:
  assumes "cache_ok c" and "0 \<le> k"
  shows "cache_ok (c(k \<mapsto> fib_seq (nat k)))"
  using assms by (auto simp: cache_ok_def)

lemma fib_seq_small:
  assumes "0 \<le> k" and "k \<le> 2"
  shows "fib_seq (nat k) = 1"
proof -
  have "k = 0 \<or> k = 1 \<or> k = 2" using assms by linarith
  then show ?thesis by (auto simp: numeral_2_eq_2)
qed

lemma get_fib_int_ok:
  "cache_ok c \<Longrightarrow> 0 \<le> k \<Longrightarrow> k - 2 \<le> int d \<Longrightarrow>
     fst (get_fib_int d c k) = Inr (fib_seq (nat k)) \<and> cache_ok (snd (get_fib_int d c k))"
proof (induction d arbitrary: c k)
  case 0
  show ?case
  proof (cases "c k")
    case (Some v)
    have "v = fib_seq (nat k)"
      using "0.prems"(1) Some unfolding cache_ok_def by blast
    then show ?thesis
      using get_fib_int_cached [of c k v 0, OF Some "0.prems"(2)] "0.prems"(1) by simp
  next
    case None
    have k2: "k \<le> 2" using "0.prems"(3) by simp
    have e: "get_fib_int 0 c k = (Inr (fib_seq (nat k)), c(k \<mapsto> fib_seq (nat k)))"
      using get_fib_int_base [of c k 0, OF None "0.prems"(2) k2]
        fib_seq_small [OF "0.prems"(2) k2] by simp
    show ?thesis
      unfolding e fst_conv snd_conv using cache_ok_upd [OF "0.prems"(1,2)] by blast
  qed
next
  case (Suc d)
  show ?case
  proof (cases "c k")
    case (Some v)
    have "v = fib_seq (nat k)"
      using Suc.prems(1) Some unfolding cache_ok_def by blast
    then show ?thesis
      using get_fib_int_cached [of c k v "Suc d", OF Some Suc.prems(2)] Suc.prems(1) by simp
  next
    case None
    show ?thesis
    proof (cases "k \<le> 2")
      case True
      have e: "get_fib_int (Suc d) c k = (Inr (fib_seq (nat k)), c(k \<mapsto> fib_seq (nat k)))"
        using get_fib_int_base [of c k "Suc d", OF None Suc.prems(2) True]
          fib_seq_small [OF Suc.prems(2) True] by simp
      show ?thesis
        unfolding e fst_conv snd_conv using cache_ok_upd [OF Suc.prems(1,2)] by blast
    next
      case False
      then have big: "3 \<le> k" by simp
      obtain r1 c1 where c1: "get_fib_int d c (k - 1) = (r1, c1)"
        by (cases "get_fib_int d c (k - 1)")
      have "0 \<le> k - 1" "k - 1 - 2 \<le> int d"
        using big Suc.prems(3) by simp_all
      from Suc.IH [OF Suc.prems(1) this] c1
      have ih1: "r1 = Inr (fib_seq (nat (k - 1)))" "cache_ok c1" by simp_all
      obtain r2 c2 where c2: "get_fib_int d c1 (k - 2) = (r2, c2)"
        by (cases "get_fib_int d c1 (k - 2)")
      have "0 \<le> k - 2" "k - 2 - 2 \<le> int d"
        using big Suc.prems(3) by simp_all
      from Suc.IH [OF ih1(2) this] c2
      have ih2: "r2 = Inr (fib_seq (nat (k - 2)))" "cache_ok c2" by simp_all
      have e: "get_fib_int (Suc d) c k =
          (Inr (fib_seq (nat k)), c2(k \<mapsto> fib_seq (nat k)))"
        using get_fib_int_step [of c k d, OF None big] c1 c2 ih1(1) ih2(1)
        by (simp add: fib_seq_rec_int [OF big])
      show ?thesis
        unfolding e fst_conv snd_conv using cache_ok_upd [OF ih2(2) Suc.prems(2)] by blast
    qed
  qed
qed

lemma get_fib_int_too_deep:
  "int d < k - 2 \<Longrightarrow> (\<forall>j. k - int d \<le> j \<and> j \<le> k \<longrightarrow> c j = None) \<Longrightarrow>
     get_fib_int d c k = (Inl RecursionError, c)"
proof (induction d arbitrary: k)
  case 0
  then have "c k = None" "3 \<le> k" by simp_all
  then show ?case by (rule get_fib_int_limit [of c k])
next
  case (Suc d)
  have none: "c k = None" and big: "3 \<le> k"
    using Suc.prems by simp_all
  have "int d < k - 1 - 2" using Suc.prems(1) by simp
  moreover have "\<forall>j. k - 1 - int d \<le> j \<and> j \<le> k - 1 \<longrightarrow> c j = None"
    using Suc.prems(2) by simp
  ultimately have "get_fib_int d c (k - 1) = (Inl RecursionError, c)"
    by (rule Suc.IH)
  then show ?case
    using get_fib_int_step [of c k d, OF none big] by simp
qed

lemma cache_ok_empty: "cache_ok Map.empty"
  by (simp add: cache_ok_def)

text \<open>
  C5 (as amended). For every integer \<open>k \<ge> 0\<close> whose recursion fits the interpreter's
  recursion limit (the interpreter still allows \<open>k - 2\<close> frames below the frame of the
  call, which an uncached \<open>k\<close> needs), called with a consistent cache (the empty cache of
  a fresh process, or any cache earlier calls left behind), \<^verbatim>\<open>get_fib_for_streak(k)\<close>
  returns the \<open>k\<close>-th term of the sequence \<open>fib(0) = fib(1) = fib(2) = 1\<close>,
  \<open>fib(k) = fib(k-1) + fib(k-2)\<close>, leaves the cache consistent, and the returned values
  are non-decreasing in \<open>k\<close>. A cached \<open>k\<close> is returned at any depth.
\<close>

theorem get_fib_for_streak_sequence:
  assumes "cache_ok c" and "cache_ok c'" and "0 \<le> j" and "j \<le> k"
    and "k - 2 \<le> int d" and "j - 2 \<le> int d'"
  shows "fst (get_fib_for_streak d c (PyInt k)) = Inr (fib_seq (nat k))
       \<and> cache_ok (snd (get_fib_for_streak d c (PyInt k)))
       \<and> fst (get_fib_for_streak d' c' (PyInt j)) = Inr (fib_seq (nat j))
       \<and> fib_seq (nat j) \<le> fib_seq (nat k)
       \<and> (c k \<noteq> None \<longrightarrow> get_fib_for_streak 0 c (PyInt k) = (Inr (fib_seq (nat k)), c))"
proof -
  have k: "0 \<le> k" using assms(3,4) by simp
  have 1: "fst (get_fib_for_streak d c (PyInt k)) = Inr (fib_seq (nat k))
       \<and> cache_ok (snd (get_fib_for_streak d c (PyInt k)))"
    using get_fib_int_ok [OF assms(1) k assms(5)] by simp
  have 2: "fst (get_fib_for_streak d' c' (PyInt j)) = Inr (fib_seq (nat j))"
    using get_fib_int_ok [OF assms(2,3,6)] by simp
  have 3: "fib_seq (nat j) \<le> fib_seq (nat k)"
    using assms(4) by (simp add: fib_seq_mono nat_mono)
  have 4: "c k \<noteq> None \<longrightarrow> get_fib_for_streak 0 c (PyInt k) = (Inr (fib_seq (nat k)), c)"
  proof
    assume "c k \<noteq> None"
    then obtain v where v: "c k = Some v" by blast
    have "v = fib_seq (nat k)"
      using assms(1) v unfolding cache_ok_def by blast
    then show "get_fib_for_streak 0 c (PyInt k) = (Inr (fib_seq (nat k)), c)"
      using get_fib_int_cached [of c k v 0, OF v k] by simp
  qed
  show ?thesis using 1 2 3 4 by blast
qed

theorem get_fib_for_streak_sequence_witness:
  "cache_ok Map.empty \<and> (0::int) \<le> 3 \<and> (3::int) \<le> 5
   \<and> (5::int) - 2 \<le> int 3 \<and> (3::int) - 2 \<le> int 1
   \<and> fst (get_fib_for_streak 3 Map.empty (PyInt 5)) = Inr 5
   \<and> fst (get_fib_for_streak 1 Map.empty (PyInt 3)) = Inr 2"
  using get_fib_for_streak_sequence [OF cache_ok_empty cache_ok_empty, of 3 5 3 1]
  by (simp add: cache_ok_empty eval_nat_numeral)

text \<open>
  The claim as stated, for every integer \<open>k \<ge> 0\<close>, fails in a fresh process: a call at
  module level runs in the second frame, so \<open>RECURSION_LIMIT - 2\<close> frames are left below
  it, and with the empty cache \<^verbatim>\<open>get_fib_for_streak(1001)\<close> raises \<open>RecursionError\<close>
  instead of returning the 1001st term.
\<close>

theorem get_fib_for_streak_recursion_counterexample:
  "get_fib_for_streak (RECURSION_LIMIT - 2) Map.empty (PyInt 1001)
     = (Inl RecursionError, Map.empty)"
proof -
  have "get_fib_int 998 Map.empty 1001 = (Inl RecursionError, Map.empty)"
    by (rule get_fib_int_too_deep) simp_all
  then show ?thesis by (simp add: RECURSION_LIMIT_def)
qed

section \<open>Properties of a roulette number: totality over the wheel\<close>

lemma in_all_numbers: "n \<in> set ALL_NUMBERS \<longleftrightarrow> 0 \<le> n \<and> n \<le> 36"
  by (simp add: ALL_NUMBERS_def)

text \<open>
  C10. \<^verbatim>\<open>get_number_properties(n)\<close> raises \<open>ValueError\<close> exactly when \<open>n\<close> is outside
  \<open>{0, ..., 36}\<close>; for \<open>n\<close> in \<open>{1, ..., 36}\<close> the record has \<open>is_zero\<close> false and a colour
  that is \<open>"red"\<close> or \<open>"black"\<close>; for \<open>n = 0\<close> it has \<open>is_zero\<close> true and colour \<open>None\<close>.
\<close>

theorem get_number_properties_total:
  "(get_number_properties n = Inl ValueError \<longleftrightarrow> \<not> (0 \<le> n \<and> n \<le> 36))
   \<and> (1 \<le> n \<and> n \<le> 36 \<longrightarrow>
        (\<exists>p. get_number_properties n = Inr p \<and> \<not> is_zero p
           \<and> (color p = Some ''red'' \<or> color p = Some ''black'')))
   \<and> (\<exists>p. get_number_properties 0 = Inr p \<and> is_zero p \<and> color p = None)"
  by (simp add: get_number_properties_def in_all_numbers ZERO_NUMBER_def)

theorem get_number_properties_total_witness:
  "(get_number_properties 37 = Inl ValueError)
   \<and> (\<exists>p. get_number_properties 7 = Inr p \<and> \<not> is_zero p \<and> color p = Some ''red'')
   \<and> (\<exists>p. get_number_properties 8 = Inr p \<and> \<not> is_zero p \<and> color p = Some ''black'')"
  using get_number_properties_total [of 37] get_number_properties_total [of 7]
    get_number_properties_total [of 8]
  by (simp add: get_number_properties_def in_all_numbers ZERO_NUMBER_def RED_NUMBERS_def)

section \<open>The stake: formula, guards and range\<close>

lemma int_to_float_cases:
  "int_to_float n = Inl OverflowError \<or> int_to_float n = Inr (Fin (fl (of_int n)))"
  by (auto simp: int_to_float_def to_float_def Let_def)

lemma int_to_float_small:
  assumes "\<bar>of_int n :: rat\<bar> \<le> dbl_max"
  shows "int_to_float n = Inr (Fin (fl (of_int n)))"
  using to_float_small [OF assms] by (simp add: int_to_float_def)

lemma zero_quotient:
  assumes "0 \<le> z" and "z \<le> 50"
  shows "val_truediv (PyInt z) (PyFloat (Fin 50)) = Inr (PyFloat (to_float (of_int z / 50)))"
proof -
  have "int_to_float z = Inr (Fin (of_int z))"
    using assms by (intro int_to_float_exact) simp
  then show ?thesis by simp
qed

lemma buffer_factor_spec_value:
  assumes "0 \<le> z" and "z \<le> 50"
  shows "buffer_factor_spec z = Inr (PyFloat (fsub (Fin 1) (to_float (of_int z / 50))))"
  using zero_quotient [OF assms] by (simp add: buffer_factor_spec_def)

lemma fl_49_50: "fl (49 / 50) = 2206763817411543 / 2251799813685248"
  by (simp add: float_eval)

lemma fl_gap: "fl (1 - 2206763817411543 / 2251799813685248) = 45035996273705 / 2251799813685248"
  by (simp add: float_eval)

lemma buffer_factor_pos:
  assumes "0 \<le> z" and "z < 50"
  shows "\<not> fle (fsub (Fin 1) (to_float (of_int z / 50))) (Fin 0)"
proof -
  define q where "q = fl (of_int z / 50)"
  have z49: "(of_int z :: rat) \<le> 49" using assms(2) by simp
  have z0: "(0::rat) \<le> of_int z" using assms(1) by simp
  have small: "\<bar>of_int z / 50 :: rat\<bar> \<le> dbl_max"
    using z0 z49 two53_le_dbl_max by simp
  have tq: "to_float (of_int z / 50) = Fin q"
    unfolding q_def using small by (rule to_float_small)
  have "of_int z / 50 \<le> (49 / 50 :: rat)" using z49 by simp
  then have qv: "q \<le> 2206763817411543 / 2251799813685248"
    unfolding q_def using fl_mono [of "of_int z / 50" "49 / 50"] fl_49_50 by simp
  have q0: "0 \<le> q" unfolding q_def using z0 by (intro fl_nonneg) simp
  have "fl (1 - 2206763817411543 / 2251799813685248) \<le> fl (1 - q)"
    using qv by (intro fl_mono) simp
  then have pos: "0 < fl (1 - q)" using fl_gap by simp
  have "\<bar>1 - q\<bar> \<le> dbl_max"
    using q0 qv two53_le_dbl_max by simp
  then have "to_float (1 - q) = Fin (fl (1 - q))" by (rule to_float_small)
  then have "fsub (Fin 1) (Fin q) = Fin (fl (1 - q))" by (simp add: fsub_def)
  then show ?thesis using tq pos by simp
qed

lemma streak_quotient:
  assumes "0 \<le> s" and "val_truediv (PyInt s) (PyFloat (Fin 15)) = Inr sq"
  shows "\<exists>x. 0 \<le> x \<and> sq = PyFloat (to_float x)"
proof -
  have "int_to_float s = Inr (Fin (fl (of_int s)))"
    using int_to_float_cases [of s] assms(2) by (auto simp: bind_e_def)
  then have "sq = PyFloat (to_float (fl (of_int s) / 15))"
    using assms(2) by simp
  moreover have "0 \<le> fl (of_int s :: rat) / 15"
    using assms(1) fl_nonneg [of "of_int s"] by simp
  ultimately show ?thesis by blast
qed

lemma streak_quotient_error:
  assumes "val_truediv (PyInt s) (PyFloat (Fin 15)) = Inl e"
  shows "e = OverflowError"
  using int_to_float_cases [of s] assms by (auto simp: bind_e_def)

lemma calculate_bet_spec:
  assumes c: "cache_ok c" and base: "\<not> val_le_zero b"
    and s: "0 \<le> s" "s - 2 \<le> int d" and z: "0 \<le> z" "z < 50"
  shows "fst (calculate_bet d c b (PyInt s) z) = stake_spec b (nat s) z"
proof -
  have fib: "fst (get_fib_int d c s) = Inr (fib_seq (nat s))"
    using get_fib_int_ok [OF c s] by simp
  have z50: "z \<le> 50" using z(2) by simp
  have zq: "val_truediv (PyInt z) (PyFloat (Fin 50)) = Inr (PyFloat (to_float (of_int z / 50)))"
    using z(1) z50 by (rule zero_quotient)
  have g2: "\<not> fle (fsub (Fin 1) (to_float (of_int z / 50))) (Fin 0)"
    using z by (rule buffer_factor_pos)
  have g0: "\<not> (0 \<le> z \<longrightarrow> \<not> z \<le> 50)" using z by simp
  show ?thesis
  proof (cases "val_truediv (PyInt s) (PyFloat (Fin 15))")
    case (Inl e)
    have 1: "fst (calculate_bet d c b (PyInt s) z) = Inl e"
      using base s(1) g0 fib zq g2 Inl
      by (simp add: calculate_bet_def split_beta del: val_truediv.simps)
    have 2: "stake_spec b (nat s) z = Inl e"
      using s(1) zq g2 Inl
      by (simp add: stake_spec_def buffer_factor_spec_def risk_index_spec_def
          del: val_truediv.simps)
    show ?thesis using 1 2 by simp
  next
    case (Inr sq)
    obtain x where x: "0 \<le> x" "sq = PyFloat (to_float x)"
      using streak_quotient [OF s(1) Inr] by blast
    have g3: "\<not> fle (fadd (Fin 1) (to_float x)) (Fin 0)"
      using risk_index_ge_one [OF x(1)] by (rule fle_one_pos)
    have 1: "fst (calculate_bet d c b (PyInt s) z) =
        bind_e (val_mul b (PyInt (fib_seq (nat s)))) (\<lambda>p1.
        bind_e (val_mul p1 (PyFloat (fsub (Fin 1) (to_float (of_int z / 50))))) (\<lambda>p2.
        bind_e (val_truediv p2 (PyFloat (fadd (Fin 1) (to_float x)))) (\<lambda>bet_amount.
        Inr (val_round bet_amount 2))))"
      using base s(1) g0 fib zq g2 Inr x(2) g3
      by (simp add: calculate_bet_def split_beta del: val_truediv.simps)
    have 2: "stake_spec b (nat s) z =
        bind_e (val_mul b (PyInt (fib_seq (nat s)))) (\<lambda>p1.
        bind_e (val_mul p1 (PyFloat (fsub (Fin 1) (to_float (of_int z / 50))))) (\<lambda>p2.
        bind_e (val_truediv p2 (PyFloat (fadd (Fin 1) (to_float x)))) (\<lambda>bet_amount.
        Inr (val_round bet_amount 2))))"
      using s(1) zq g2 Inr x(2) g3
      by (simp add: stake_spec_def buffer_factor_spec_def risk_index_spec_def
          del: val_truediv.simps)
    show ?thesis using 1 2 by simp
  qed
qed

lemma stake_spec_total:
  assumes fit: "ints_fit b k" and z: "0 \<le> z" "z \<le> 50"
  shows "\<exists>v. stake_spec b k z = Inr (PyFloat v)"
proof -
  define bf where "bf = fsub (Fin 1) (to_float (of_int z / 50))"
  have bfv: "buffer_factor_spec z = Inr (PyFloat bf)"
    unfolding bf_def using z by (rule buffer_factor_spec_value)
  have k: "\<bar>of_int (int k) :: rat\<bar> \<le> dbl_max"
    using fit by (cases b) simp_all
  have kf: "int_to_float (int k) = Inr (Fin (fl (of_int (int k))))"
    using k by (rule int_to_float_small)
  define ri where "ri = fadd (Fin 1) (to_float (fl (of_int (int k)) / 15))"
  have riv: "risk_index_spec k = Inr (PyFloat ri)"
    using kf by (simp add: risk_index_spec_def ri_def)
  have "0 \<le> fl (of_int (int k) :: rat) / 15"
    using fl_nonneg [of "of_int (int k)"] by simp
  then have ri1: "fle (Fin 1) ri"
    unfolding ri_def by (rule risk_index_ge_one)
  have "\<exists>p. bind_e (val_mul b (PyInt (fib_seq k))) (\<lambda>p1. val_mul p1 (PyFloat bf))
      = Inr (PyFloat p)"
  proof (cases b)
    case (PyInt n)
    have "int_to_float (n * fib_seq k) = Inr (Fin (fl (of_int (n * fib_seq k))))"
      using fit PyInt by (intro int_to_float_small) simp
    then show ?thesis using PyInt by simp
  next
    case (PyFloat x)
    have "0 < fib_seq k" by (rule fib_seq_pos)
    then have "\<bar>of_int (fib_seq k) :: rat\<bar> \<le> dbl_max"
      using fit PyFloat by simp
    then have "int_to_float (fib_seq k) = Inr (Fin (fl (of_int (fib_seq k))))"
      by (rule int_to_float_small)
    then show ?thesis using PyFloat by simp
  qed
  then obtain p where p: "bind_e (val_mul b (PyInt (fib_seq k)))
      (\<lambda>p1. val_mul p1 (PyFloat bf)) = Inr (PyFloat p)" by blast
  obtain q where q: "fdiv p ri = Inr q"
    using fdiv_by_ge_one [OF ri1] by blast
  have "stake_spec b k z = Inr (PyFloat (py_round q 2))"
    using bfv riv p q
    by (cases "val_mul b (PyInt (fib_seq k))") (simp_all add: stake_spec_def)
  then show ?thesis by blast
qed

lemma fib_seq_12: "fib_seq 12 = 144"
  by (simp add: eval_nat_numeral)

lemma stake_spec_reference: "stake_spec (PyInt 10) 12 3 = Inr (PyFloat (Fin 752))"
  by (simp add: float_eval stake_spec_def buffer_factor_spec_def risk_index_spec_def fib_seq_12)

lemma stake_spec_streak_0: "stake_spec (PyInt 10) 0 3 = Inr (PyFloat (pylit (94 / 10)))"
  by (simp add: float_eval stake_spec_def buffer_factor_spec_def risk_index_spec_def)

lemma stake_spec_1_40: "stake_spec (PyInt 10) 1 40 = Inr (PyFloat (pylit (187 / 100)))"
  by (simp add: float_eval stake_spec_def buffer_factor_spec_def risk_index_spec_def)

lemma stake_exact_1_40: "stake_exact 10 1 40 = 188 / 100"
  by (simp add: stake_exact_def round_half_even_def)

lemma calculate_bet_full_window:
  assumes c: "cache_ok c" and base: "\<not> val_le_zero b" and s: "0 \<le> s" "s - 2 \<le> int d"
  shows "fst (calculate_bet d c b (PyInt s) 50) = Inr (PyFloat (Fin 0))"
proof -
  have fib: "fst (get_fib_int d c s) = Inr (fib_seq (nat s))"
    using get_fib_int_ok [OF c s] by simp
  have zq: "val_truediv (PyInt 50) (PyFloat (Fin 50)) = Inr (PyFloat (to_float (50 / 50)))"
    using zero_quotient [of 50] by simp
  have "to_float (50 / 50) = Fin 1"
    using to_float_small [of 1] dbl_max_pos two53_le_dbl_max by simp
  then have "fsub (Fin 1) (to_float (50 / 50)) = Fin 0"
    using to_float_small [of 0] dbl_max_pos by (simp add: fsub_def)
  then show ?thesis
    using base s(1) fib zq
    by (simp add: calculate_bet_def split_beta del: val_truediv.simps)
qed

text \<open>
  C1 (as amended). For every base \<open>> 0\<close>, every integer streak \<open>\<ge> 0\<close> whose recursion
  fits the interpreter's recursion limit (the interpreter still allows \<open>streak - 2\<close> frames
  below the call of \<^verbatim>\<open>get_fib_for_streak\<close>) and every integer zero count in \<open>[0, 50)\<close>,
  \<^verbatim>\<open>calculate_bet\<close> does what the expression
  \<open>round(base * fib(streak) * (1.0 - zero_count/50.0) / (1.0 + streak/15.0), 2)\<close> does in
  Python's arithmetic, where an \<^verbatim>\<open>int\<close> base is multiplied exactly and every other
  operation is a rounded float operation: it returns that value, which is a float
  whenever the integers entering float arithmetic fit a float, and raises
  \<open>OverflowError\<close> with the expression otherwise. At zero count 50 the stake is \<open>0.0\<close>;
  \<open>calculate_bet(10, 12, 3) = 752.0\<close> and \<open>calculate_bet(10, 0, 3) = 9.4\<close>. The cache is
  any consistent one.
\<close>

theorem calculate_bet_formula:
  assumes "cache_ok c" and "\<not> val_le_zero b" and "0 \<le> s" and "s - 2 \<le> int d"
    and "0 \<le> z" and "z \<le> 50"
  shows "(z < 50 \<longrightarrow> fst (calculate_bet d c b (PyInt s) z) = stake_spec b (nat s) z)
       \<and> (ints_fit b (nat s) \<longrightarrow> (\<exists>v. stake_spec b (nat s) z = Inr (PyFloat v)))
       \<and> fst (calculate_bet d c b (PyInt s) 50) = Inr (PyFloat (Fin 0))
       \<and> (10 \<le> d \<longrightarrow>
            fst (calculate_bet d c (PyInt 10) (PyInt 12) 3) = Inr (PyFloat (Fin 752)))
       \<and> fst (calculate_bet d c (PyInt 10) (PyInt 0) 3) = Inr (PyFloat (pylit (94 / 10)))"
proof -
  have 1: "z < 50 \<longrightarrow> fst (calculate_bet d c b (PyInt s) z) = stake_spec b (nat s) z"
    using assms calculate_bet_spec by blast
  have 2: "ints_fit b (nat s) \<longrightarrow> (\<exists>v. stake_spec b (nat s) z = Inr (PyFloat v))"
    using assms(5,6) stake_spec_total by blast
  have 3: "fst (calculate_bet d c b (PyInt s) 50) = Inr (PyFloat (Fin 0))"
    using assms(1-4) by (rule calculate_bet_full_window)
  have 4: "10 \<le> d \<longrightarrow>
      fst (calculate_bet d c (PyInt 10) (PyInt 12) 3) = Inr (PyFloat (Fin 752))"
    using calculate_bet_spec [OF assms(1), of "PyInt 10" 12 d 3] stake_spec_reference
    by auto
  have 5: "fst (calculate_bet d c (PyInt 10) (PyInt 0) 3) = Inr (PyFloat (pylit (94 / 10)))"
    using calculate_bet_spec [OF assms(1), of "PyInt 10" 0 d 3] stake_spec_streak_0
    by auto
  show ?thesis using 1 2 3 4 5 by blast
qed

theorem calculate_bet_formula_witness:
  "cache_ok Map.empty \<and> \<not> val_le_zero (PyInt 10) \<and> (0::int) \<le> 12 \<and> (12::int) - 2 \<le> int 10
   \<and> (0::int) \<le> 3 \<and> (3::int) \<le> 50 \<and> (3::int) < 50
   \<and> fst (calculate_bet 10 Map.empty (PyInt 10) (PyInt 12) 3) = Inr (PyFloat (Fin 752))
   \<and> stake_spec (PyInt 10) (nat 12) 3 = Inr (PyFloat (Fin 752))
   \<and> fst (calculate_bet 10 Map.empty (PyInt 10) (PyInt 12) 50) = Inr (PyFloat (Fin 0))"
  using calculate_bet_formula [OF cache_ok_empty, of "PyInt 10" 12 10 3]
    stake_spec_reference
  by (simp add: cache_ok_empty)

text \<open>
  The claim as stated fails in both of its readings. The formula of the claim, rounded to
  two decimals, is \<open>1.88\<close> at base 10, streak 1 and zero count 40 (its exact value is
  \<open>1.875\<close>), where \<^verbatim>\<open>calculate_bet\<close> returns the float \<open>1.87\<close>: the float operations of the
  program round on the way. And not every integer streak \<open>\<ge> 0\<close> has a stake: in a fresh
  process a call of \<^verbatim>\<open>calculate_bet\<close> at module level runs \<^verbatim>\<open>get_fib_for_streak\<close> in the
  third frame, and at streak 1477 the recursion through the empty cache raises
  \<open>RecursionError\<close>.
\<close>

theorem calculate_bet_formula_counterexample:
  "fst (calculate_bet (RECURSION_LIMIT - 3) Map.empty (PyInt 10) (PyInt 1) 40)
     = Inr (PyFloat (pylit (187 / 100)))
   \<and> stake_exact 10 1 40 = 188 / 100
   \<and> fst (calculate_bet (RECURSION_LIMIT - 3) Map.empty (PyInt 10) (PyInt 1477) 3)
     = Inl RecursionError"
proof -
  have 1: "fst (calculate_bet (RECURSION_LIMIT - 3) Map.empty (PyInt 10) (PyInt 1) 40)
     = Inr (PyFloat (pylit (187 / 100)))"
    using calculate_bet_spec [OF cache_ok_empty, of "PyInt 10" 1 "RECURSION_LIMIT - 3" 40]
      stake_spec_1_40 by simp
  have "get_fib_int 997 Map.empty 1477 = (Inl RecursionError, Map.empty)"
    by (rule get_fib_int_too_deep) simp_all
  then have 2: "fst (calculate_bet (RECURSION_LIMIT - 3) Map.empty (PyInt 10) (PyInt 1477) 3)
     = Inl RecursionError"
    by (simp add: calculate_bet_def RECURSION_LIMIT_def)
  show ?thesis using 1 2 stake_exact_1_40 by blast
qed

text \<open>
  C9 (as amended). If \<open>base \<le> 0\<close>, or the streak is a number below 0, or the zero count is
  outside \<open>[0, 50]\<close>, \<^verbatim>\<open>calculate_bet\<close> returns \<open>0.0\<close>, raises nothing and leaves the cache
  untouched; in particular \<open>calculate_bet(10, s, 60) = 0.0\<close> for every \<open>s\<close>. A streak that is
  not an integer and passes these three guards makes \<^verbatim>\<open>get_fib_for_streak\<close> raise
  \<open>ValueError\<close>, which \<^verbatim>\<open>calculate_bet\<close> does not catch.
\<close>

theorem calculate_bet_guards:
  "(val_le_zero b \<or> val_lt_zero streak \<or> \<not> (0 \<le> z \<and> z \<le> 50)
      \<longrightarrow> calculate_bet d c b streak z = (Inr (PyFloat (Fin 0)), c))
   \<and> (\<not> val_le_zero b \<and> \<not> flt x (Fin 0) \<and> 0 \<le> z \<and> z \<le> 50
      \<longrightarrow> calculate_bet d c b (PyFloat x) z = (Inl ValueError, c))
   \<and> calculate_bet d c (PyInt 10) streak 60 = (Inr (PyFloat (Fin 0)), c)"
  by (simp add: calculate_bet_def)

theorem calculate_bet_guards_witness:
  "val_le_zero (PyFloat (Fin (- 1))) \<and> val_lt_zero (PyInt (- 2))
   \<and> \<not> (0 \<le> (60::int) \<and> (60::int) \<le> 50)
   \<and> calculate_bet 0 Map.empty (PyFloat (Fin (- 1))) (PyInt 3) 3
       = (Inr (PyFloat (Fin 0)), Map.empty)
   \<and> calculate_bet 0 Map.empty (PyInt 10) (PyInt (- 2)) 3 = (Inr (PyFloat (Fin 0)), Map.empty)
   \<and> calculate_bet 0 Map.empty (PyInt 10) (PyInt 3) 60 = (Inr (PyFloat (Fin 0)), Map.empty)
   \<and> \<not> val_le_zero (PyInt 10) \<and> \<not> flt (Fin (7 / 2)) (Fin 0)
   \<and> calculate_bet 0 Map.empty (PyInt 10) (PyFloat (Fin (7 / 2))) 3
       = (Inl ValueError, Map.empty)"
  using calculate_bet_guards [of "PyFloat (Fin (- 1))" "PyInt 3" 3 0 Map.empty "Fin 0"]
    calculate_bet_guards [of "PyInt 10" "PyInt (- 2)" 3 0 Map.empty "Fin 0"]
    calculate_bet_guards [of "PyInt 10" "PyInt 3" 60 0 Map.empty "Fin (7 / 2)"]
    calculate_bet_guards [of "PyInt 10" "PyInt 3" 3 0 Map.empty "Fin (7 / 2)"]
  by simp

text \<open>
  The claim as stated fails for a streak that is not an integer: with base 10, streak 2.5
  and zero count 3 the call raises \<open>ValueError\<close> instead of returning \<open>0.0\<close>.
\<close>

theorem calculate_bet_noninteger_counterexample:
  "calculate_bet 0 Map.empty (PyInt 10) (PyFloat (Fin (5 / 2))) 3 = (Inl ValueError, Map.empty)"
  by (simp add: calculate_bet_def)

section \<open>The risk monitor: one transition\<close>

lemma fdiv_by_pos: "flt (Fin 0) d \<Longrightarrow> \<exists>q. fdiv x d = Inr q"
  by (cases d; cases x) auto

lemma stop_flags_literal:
  "f \<lparr> loss_streak_limit := a, zero_count_limit := b, drawdown_limit := c \<rparr>
     = \<lparr> loss_streak_limit = a, zero_count_limit = b, drawdown_limit = c \<rparr>"
  by (cases f) simp

text \<open>What \<^verbatim>\<open>check_stop_conditions\<close> stores when it returns: the three stop predicates.\<close>

lemma check_stop_conditions_result:
  assumes "check_stop_conditions m = Inr m'"
  shows "m' = m \<lparr> stop_conditions_met :=
              \<lparr> loss_streak_limit = (15 \<le> current_streak m),
                zero_count_limit = (4 \<le> z_count_last_50 m),
                drawdown_limit = drawdown_exceeded m \<rparr> \<rparr>"
proof (cases "val_lt (PyInt 0) (initial_bank m)")
  case True
  obtain lost where l: "val_sub (initial_bank m) (current_bank m) = Inr lost"
    using assms True
    by (cases "val_sub (initial_bank m) (current_bank m)")
      (simp_all add: check_stop_conditions_def Let_def)
  obtain d where d: "val_truediv lost (initial_bank m) = Inr d"
    using assms True l
    by (cases "val_truediv lost (initial_bank m)")
      (simp_all add: check_stop_conditions_def Let_def)
  show ?thesis
    using assms True l d
    by (auto simp: check_stop_conditions_def drawdown_exceeded_def Let_def stop_flags_literal
        MAX_CONSECUTIVE_LOSSES_LIMIT_def MAX_ZEROS_IN_50_SPINS_LIMIT_def
        DRAWDOWN_LIMIT_PERCENTAGE_def)
next
  case False
  then show ?thesis
    using assms
    by (auto simp: check_stop_conditions_def drawdown_exceeded_def Let_def stop_flags_literal
        MAX_CONSECUTIVE_LOSSES_LIMIT_def MAX_ZEROS_IN_50_SPINS_LIMIT_def split: if_splits)
qed

lemma check_stop_conditions_float:
  assumes "is_float (initial_bank m)" and "is_float (current_bank m)"
  shows "\<exists>m'. check_stop_conditions m = Inr m'"
proof -
  obtain a where a: "initial_bank m = PyFloat a" using assms(1) by (cases "initial_bank m") auto
  obtain b where b: "current_bank m = PyFloat b" using assms(2) by (cases "current_bank m") auto
  show ?thesis
  proof (cases "flt (Fin 0) a")
    case True
    then obtain q where "fdiv (fsub a b) a = Inr q" using fdiv_by_pos by blast
    then show ?thesis
      using True a b by (simp add: check_stop_conditions_def Let_def val_lt_def)
  next
    case False
    then show ?thesis
      using a b by (simp add: check_stop_conditions_def Let_def val_lt_def)
  qed
qed

lemmas monitor_eval = update_state_def check_stop_conditions_def update_z_count_def
  RiskMonitor_init_def reset_state_def ZERO_BUFFER_CONTRIBUTION_RATE_def
  ZERO_LOSS_COMPENSATION_RATE_def MAX_HISTORY_FOR_ZERO_COUNT_def
  MAX_CONSECUTIVE_LOSSES_LIMIT_def MAX_ZEROS_IN_50_SPINS_LIMIT_def
  DRAWDOWN_LIMIT_PERCENTAGE_def val_lt_def val_le_def val_eq_def val_min_def val_max_def

lemma bind_e_eq_Inr: "bind_e x f = Inr y \<longleftrightarrow> (\<exists>v. x = Inr v \<and> f v = Inr y)"
  by (cases x) simp_all

lemma is_floatE:
  assumes "is_float v"
  obtains x where "v = PyFloat x"
  using assms by (cases v) auto

text \<open>What a win transition stores when it returns, and that it returns on floats.\<close>

lemma update_state_win_result:
  assumes "val_lt (PyInt 0) w" and "update_state m sp b w z (Some pre) = Inr m'"
  shows "\<exists>bank contribution reserve.
       val_add pre w = Inr bank
     \<and> val_mul w (PyFloat ZERO_BUFFER_CONTRIBUTION_RATE) = Inr contribution
     \<and> val_add (zero_buffer m) contribution = Inr reserve
     \<and> current_bank m' = val_round bank 2
     \<and> current_streak m' = 0
     \<and> zero_buffer m' = val_round reserve 2"
  using assms
  by (auto simp: update_state_def Let_def update_z_count_def bind_e_eq_Inr
      dest!: check_stop_conditions_result)

lemma update_state_win_float:
  assumes "val_lt (PyInt 0) w" and "is_float pre" and "is_float w"
    and "is_float (zero_buffer m)" and "is_float (initial_bank m)"
  shows "\<exists>m'. update_state m sp b w z (Some pre) = Inr m'"
proof -
  obtain p where p: "pre = PyFloat p" using assms(2) by (rule is_floatE)
  obtain x where x: "w = PyFloat x" using assms(3) by (rule is_floatE)
  obtain r where r: "zero_buffer m = PyFloat r" using assms(4) by (rule is_floatE)
  show ?thesis
    using assms(1,5) p x r
    by (auto simp: update_state_def Let_def update_z_count_def
        intro!: check_stop_conditions_float)
qed


lemma val_round_float: "is_float v \<Longrightarrow> is_float (val_round v n)"
  by (cases v) simp_all

lemma val_min_float: "is_float a \<Longrightarrow> is_float b \<Longrightarrow> is_float (val_min a b)"
  by (simp add: val_min_def)


lemma win_example:
  "map_sum id (\<lambda>m. (current_bank m, current_streak m, zero_buffer m))
     (update_state (RiskMonitor_init (PyInt 1000) (PyInt 10)) 1 (PyInt 10) (PyInt 10) False
        (Some (PyInt 1000)))
   = Inr (PyInt 1010, 0, PyFloat (pylit (50 / 100)))"
  by (simp add: monitor_eval float_eval)


text \<open>
  C3 (as amended). For every risk state and every win transition (\<^verbatim>\<open>update_state\<close> with
  \<open>win_amount > 0\<close> and the pre-stake bank supplied) that returns, the new \<open>current_bank\<close>
  is the pre-stake bank plus the win, rounded to 2 decimals, \<open>loss_streak\<close> becomes 0, and
  the reserve becomes \<open>round(reserve + win_amount * 0.05, 2)\<close>: the sum is rounded, not
  the contribution. The transition returns whenever the amounts are floats (an \<^verbatim>\<open>int\<close>
  too large for a float makes the arithmetic raise \<open>OverflowError\<close>). With bank 1000,
  stake 10, net win 10, not zero, the result is bank 1010, streak 0, reserve 0.5.
\<close>

theorem update_state_win:
  assumes "val_lt (PyInt 0) w"
  shows "(\<forall>m'. update_state m sp b w z (Some pre) = Inr m' \<longrightarrow>
            map_sum id (\<lambda>x. val_round x 2) (val_add pre w) = Inr (current_bank m')
          \<and> current_streak m' = 0
          \<and> map_sum id (\<lambda>x. val_round x 2)
                (bind_e (val_mul w (PyFloat ZERO_BUFFER_CONTRIBUTION_RATE))
                   (val_add (zero_buffer m)))
              = Inr (zero_buffer m'))
       \<and> (is_float pre \<and> is_float w \<and> is_float (zero_buffer m) \<and> is_float (initial_bank m)
            \<longrightarrow> (\<exists>m'. update_state m sp b w z (Some pre) = Inr m'))
       \<and> map_sum id (\<lambda>m. (current_bank m, current_streak m, zero_buffer m))
            (update_state (RiskMonitor_init (PyInt 1000) (PyInt 10)) 1 (PyInt 10) (PyInt 10)
               False (Some (PyInt 1000)))
          = Inr (PyInt 1010, 0, PyFloat (pylit (50 / 100)))"
proof -
  have 1: "\<forall>m'. update_state m sp b w z (Some pre) = Inr m' \<longrightarrow>
            map_sum id (\<lambda>x. val_round x 2) (val_add pre w) = Inr (current_bank m')
          \<and> current_streak m' = 0
          \<and> map_sum id (\<lambda>x. val_round x 2)
                (bind_e (val_mul w (PyFloat ZERO_BUFFER_CONTRIBUTION_RATE))
                   (val_add (zero_buffer m)))
              = Inr (zero_buffer m')"
  proof (intro allI impI)
    fix m'
    assume "update_state m sp b w z (Some pre) = Inr m'"
    from update_state_win_result [OF assms this]
    show "map_sum id (\<lambda>x. val_round x 2) (val_add pre w) = Inr (current_bank m')
          \<and> current_streak m' = 0
          \<and> map_sum id (\<lambda>x. val_round x 2)
                (bind_e (val_mul w (PyFloat ZERO_BUFFER_CONTRIBUTION_RATE))
                   (val_add (zero_buffer m)))
              = Inr (zero_buffer m')"
      by auto
  qed
  have 2: "is_float pre \<and> is_float w \<and> is_float (zero_buffer m) \<and> is_float (initial_bank m)
            \<longrightarrow> (\<exists>m'. update_state m sp b w z (Some pre) = Inr m')"
    using update_state_win_float [OF assms] by blast
  show ?thesis using 1 2 win_example by blast
qed

theorem update_state_win_witness:
  "val_lt (PyInt 0) (PyFloat (Fin 10))
   \<and> is_float (PyFloat (Fin 1000))
   \<and> map_sum id (\<lambda>m. (current_bank m, current_streak m, zero_buffer m))
        (update_state (RiskMonitor_init (PyFloat (Fin 1000)) (PyFloat (Fin 10))) 1
           (PyFloat (Fin 10)) (PyFloat (Fin 10)) False (Some (PyFloat (Fin 1000))))
      = Inr (PyFloat (Fin 1010), 0, PyFloat (pylit (50 / 100)))
   \<and> map_sum id (\<lambda>x. val_round x 2) (val_add (PyFloat (Fin 1000)) (PyFloat (Fin 10)))
      = Inr (PyFloat (Fin 1010))"
  using update_state_win [of "PyFloat (Fin 10)"
      "RiskMonitor_init (PyFloat (Fin 1000)) (PyFloat (Fin 10))" 1 "PyFloat (Fin 10)" False
      "PyFloat (Fin 1000)"]
  by (simp add: monitor_eval float_eval)

text \<open>
  The claim as stated, "the reserve increases by \<open>round(win_amount * 0.05, 2)\<close>", fails on
  a reserve of 0.01 and a win of 2.5: the contribution 0.125 rounds to 0.12, which would
  give 0.13, while the code rounds the sum 0.135 and stores 0.14.
\<close>

theorem update_state_win_counterexample:
  "val_lt (PyInt 0) (PyFloat (Fin (5 / 2)))
   \<and> map_sum id zero_buffer
        (update_state
           ((RiskMonitor_init (PyInt 1000) (PyInt 10))
              \<lparr> zero_buffer := PyFloat (pylit (1 / 100)) \<rparr>)
           1 (PyFloat (Fin (5 / 2))) (PyFloat (Fin (5 / 2))) False (Some (PyInt 1000)))
      = Inr (PyFloat (pylit (14 / 100)))
   \<and> fadd (pylit (1 / 100)) (py_round (fmul (Fin (5 / 2)) ZERO_BUFFER_CONTRIBUTION_RATE) 2)
      = pylit (13 / 100)
   \<and> pylit (14 / 100) \<noteq> pylit (13 / 100)"
  by (simp add: monitor_eval float_eval)




section \<open>The driver: stop checks\<close>

lemma drawdown_exceeded_flags [simp]:
  "drawdown_exceeded (m \<lparr> stop_conditions_met := f \<rparr>) = drawdown_exceeded m"
  by (simp add: drawdown_exceeded_def)




lemma record_triggers_fields [simp]:
  "risk_monitor (record_triggers s) = risk_monitor s"
  "spin_history (record_triggers s) = spin_history s"
  "bet_history (record_triggers s) = bet_history s"
  "sim_current_bank (record_triggers s) = sim_current_bank s"
  by (simp_all add: record_triggers_def)







section \<open>The driver: worked rounds\<close>

lemma fresh_monitor:
  "RiskMonitor_init bank0 bet0 =
     \<lparr> initial_bank = bank0, base_bet = bet0, current_bank = bank0, current_streak = 0,
       z_count_last_50 = 0, zero_buffer = PyFloat (Fin 0), spin_history_for_zero_count = [],
       stop_conditions_met =
         \<lparr> loss_streak_limit = False, zero_count_limit = False, drawdown_limit = False \<rparr> \<rparr>"
  by (simp add: RiskMonitor_init_def reset_state_def)

lemma get_fib_int_0: "get_fib_int d Map.empty 0 = (Inr 1, [0 \<mapsto> 1])"
  by (simp add: get_fib_int.simps [of d Map.empty 0])

lemma stake_0_0:
  "calculate_bet d Map.empty (PyInt 10) (PyInt 0) 0 = (Inr (PyFloat (Fin 10)), [0 \<mapsto> 1])"
  by (simp add: calculate_bet_def get_fib_int_0 float_eval cong: bind_e_weak_cong)

lemma round_arith:
  "val_round (PyFloat (Fin 10)) 2 = PyFloat (Fin 10)"
  "val_round (PyFloat (Fin 1)) 4 = PyFloat (Fin 1)"
  "val_round (PyFloat (fadd (Fin 1) (pylit (1 / 15)))) 4 = PyFloat (pylit (10667 / 10000))"
  "val_truediv (PyInt 1) (PyInt 15) = Inr (PyFloat (pylit (1 / 15)))"
  "val_truediv (PyInt 0) (PyInt 15) = Inr (PyFloat (Fin 0))"
  "val_truediv (PyInt 0) (PyInt 50) = Inr (PyFloat (Fin 0))"
  "val_add (PyInt 1) (PyFloat (pylit (1 / 15))) = Inr (PyFloat (fadd (Fin 1) (pylit (1 / 15))))"
  "val_add (PyInt 1) (PyFloat (Fin 0)) = Inr (PyFloat (Fin 1))"
  "val_sub (PyInt 1) (PyFloat (Fin 0)) = Inr (PyFloat (Fin 1))"
  "val_sub (PyInt 1000) (PyFloat (Fin 990)) = Inr (PyFloat (Fin 10))"
  "val_sub (PyInt 10) (PyFloat (Fin 0)) = Inr (PyFloat (Fin 10))"
  "val_sub (PyInt 0) (PyInt 0) = Inr (PyInt 0)"
  by (simp_all add: float_eval)

lemma outcomes:
  "place_bet_and_determine_outcome (PyFloat (Fin 10)) 0 = Inr (PyInt 0, True)"
  "place_bet_and_determine_outcome (PyFloat (Fin 10)) 2 = Inr (PyInt 0, False)"
  "map_sum id is_zero (get_number_properties 5) = Inr False"
  by (simp_all add: place_bet_and_determine_outcome_def get_number_properties_def
      in_all_numbers ZERO_NUMBER_def RED_NUMBERS_def val_le_def cong: bind_e_weak_cong)

lemma reserve_stats_same: "reserve_stats (PyFloat (Fin 0)) (PyFloat (Fin 0)) st = Inr st"
  by (simp add: reserve_stats_def val_lt_def)

text \<open>Bank 1000, base stake 10, the first spin a zero: a loss on the zero.\<close>

lemma zero_loss_transition:
  "update_state
     \<lparr> initial_bank = PyInt 1000, base_bet = PyInt 10, current_bank = PyInt 1000,
       current_streak = 0, z_count_last_50 = 0, zero_buffer = PyFloat (Fin 0),
       spin_history_for_zero_count = [],
       stop_conditions_met =
         \<lparr> loss_streak_limit = False, zero_count_limit = False, drawdown_limit = False \<rparr> \<rparr>
     0 (PyFloat (Fin 10)) (PyInt 0) True (Some (PyInt 1000))
   = Inr \<lparr> initial_bank = PyInt 1000, base_bet = PyInt 10,
       current_bank = PyFloat (Fin 990), current_streak = 1, z_count_last_50 = 1,
       zero_buffer = PyFloat (Fin 0), spin_history_for_zero_count = [1],
       stop_conditions_met =
         \<lparr> loss_streak_limit = False, zero_count_limit = False, drawdown_limit = False \<rparr> \<rparr>"
  by (simp add: monitor_eval float_eval cong: bind_e_weak_cong)

lemma zero_loss_round:
  "map_sum id (\<lambda>(ex, s). (ex, map streak_before_bet (bet_history s),
        map z_count_before_bet (bet_history s), map bet_amount (bet_history s),
        map risk_index (bet_history s), spin_history s, current_streak (risk_monitor s)))
     (sim_round d (\<lambda>k. 0) 1
        (RouletteSimulator_init (PyInt 1000) (PyInt 10)
           (RiskMonitor_init (PyInt 1000) (PyInt 10)) Map.empty))
   = Inr (Continue, [1], [0], [PyFloat (Fin 10)], [PyFloat (pylit (10667 / 10000))], [0], 1)"
  apply (simp add: sim_round_def RouletteSimulator_init_def is_stop_suggested_def stake_0_0
      round_arith fresh_monitor val_min_def val_lt_def val_le_def Let_def
      cong: bind_e_weak_cong
      del: val_round.simps val_add.simps val_sub.simps val_mul.simps val_truediv.simps)
  apply (simp add: bet_round_def spin_wheel_def zero_loss_transition outcomes
      reserve_stats_same round_arith is_stop_suggested_def val_eq_def val_lt_def val_le_def
      Let_def cong: bind_e_weak_cong
      del: val_round.simps val_add.simps val_sub.simps val_mul.simps val_truediv.simps)
  done

text \<open>
  C8. The claim holds of the record as the comment in the program describes it (the
  streak and the zero count "as they were before this spin"), and the program misses it:
  with bank 1000 and base stake 10, the first round starts from streak 0 and zero count
  0, stakes 10.0 (the stake of streak 0), and the wheel gives 0. The transition raises
  the streak to 1; the correction that follows undoes the increment only for a loss that
  is not on the zero, so the record holds streak 1 and risk index 1.0667 instead of
  streak 0 and risk index 1.0.
\<close>

theorem sim_round_record_after_zero_loss:
  "current_streak (RiskMonitor_init (PyInt 1000) (PyInt 10)) = 0
   \<and> z_count_last_50 (RiskMonitor_init (PyInt 1000) (PyInt 10)) = 0
   \<and> fst (calculate_bet (RECURSION_LIMIT - 4) Map.empty (PyInt 10) (PyInt 0) 0)
       = Inr (PyFloat (Fin 10))
   \<and> map_sum id (\<lambda>(ex, s). (map bet_amount (bet_history s),
          map streak_before_bet (bet_history s), map z_count_before_bet (bet_history s),
          map risk_index (bet_history s)))
       (sim_round (RECURSION_LIMIT - 4) (\<lambda>k. 0) 1
          (RouletteSimulator_init (PyInt 1000) (PyInt 10)
             (RiskMonitor_init (PyInt 1000) (PyInt 10)) Map.empty))
     = Inr ([PyFloat (Fin 10)], [1], [0], [PyFloat (pylit (10667 / 10000))])"
proof -
  obtain ex s where r: "sim_round (RECURSION_LIMIT - 4) (\<lambda>k. 0) 1
          (RouletteSimulator_init (PyInt 1000) (PyInt 10)
             (RiskMonitor_init (PyInt 1000) (PyInt 10)) Map.empty) = Inr (ex, s)"
    using zero_loss_round [of "RECURSION_LIMIT - 4"]
    by (cases "sim_round (RECURSION_LIMIT - 4) (\<lambda>k. 0) 1
          (RouletteSimulator_init (PyInt 1000) (PyInt 10)
             (RiskMonitor_init (PyInt 1000) (PyInt 10)) Map.empty)") auto
  show ?thesis
    using zero_loss_round [of "RECURSION_LIMIT - 4"] r
    by (simp add: fresh_monitor stake_0_0)
qed




end
